theory Spec2Isabelle
  imports Main "HOL-Library.AList"
begin

section \<open>Text helpers\<close>

text \<open>
  Python strings are modelled as HOL strings holding ASCII text. \<open>str.lower\<close> and
  \<open>str.upper\<close> change the 26 ASCII letters and nothing else; \<open>str.split()\<close>
  cuts at runs of ASCII whitespace and returns no empty token; \<open>sep.join\<close> is
  \<open>py_join\<close>.
\<close>

definition lower_char :: "char \<Rightarrow> char" where
  "lower_char c =
     (case map_of (zip ''ABCDEFGHIJKLMNOPQRSTUVWXYZ'' ''abcdefghijklmnopqrstuvwxyz'') c of
        None \<Rightarrow> c
      | Some d \<Rightarrow> d)"

definition upper_char :: "char \<Rightarrow> char" where
  "upper_char c =
     (case map_of (zip ''abcdefghijklmnopqrstuvwxyz'' ''ABCDEFGHIJKLMNOPQRSTUVWXYZ'') c of
        None \<Rightarrow> c
      | Some d \<Rightarrow> d)"

definition lower_str :: "string \<Rightarrow> string" where
  "lower_str s = map lower_char s"

definition upper_str :: "string \<Rightarrow> string" where
  "upper_str s = map upper_char s"

definition is_space :: "char \<Rightarrow> bool" where
  "is_space c =
     (c \<in> set [CHR 0x09, CHR 0x0A, CHR 0x0B, CHR 0x0C, CHR 0x0D,
                CHR 0x1C, CHR 0x1D, CHR 0x1E, CHR 0x1F, CHR '' ''])"

fun split_from :: "string \<Rightarrow> string \<Rightarrow> string list" where
  "split_from cur [] = (if cur = [] then [] else [cur])"
| "split_from cur (c # cs) =
     (if is_space c then (if cur = [] then split_from [] cs else cur # split_from [] cs)
      else split_from (cur @ [c]) cs)"

definition split_ws :: "string \<Rightarrow> string list" where
  "split_ws s = split_from [] s"

fun py_join :: "string \<Rightarrow> string list \<Rightarrow> string" where
  "py_join sep [] = []"
| "py_join sep [x] = x"
| "py_join sep (x # y # ys) = x @ sep @ py_join sep (y # ys)"

section \<open>Data model\<close>

record item =
  item_name :: string
  item_description :: string
  can_take :: bool

text \<open>
  \<open>exits\<close> is a Python dict, whose keys keep their insertion order (the order
  \<open>cmd_look\<close> prints): an association list written with \<open>AList.update\<close>.
  \<open>hints\<close> is declared \<open>List[str] = None\<close>.
\<close>

record room =
  name :: string
  description :: string
  items :: "item list"
  exits :: "(string \<times> string) list"
  visited :: bool
  hints :: "string list option"
  atmosphere :: string
  story_context :: string
  is_goal :: bool

record player =
  player_name :: string
  inventory :: "item list"
  current_room :: "string option"

text \<open>
  The fields of \<open>Game\<close>, and a counter of the calls made to the narrative service
  (\<open>client.chat.completions.create\<close>), which the source does not keep: it is what
  "one attempt" and "no generation call" are read from. What the source prints on the
  console (\<open>print\<close>) is not part of the state; the text a command returns is.
\<close>

record game =
  rooms :: "string \<rightharpoonup> room"
  player :: "player option"
  story_theme :: string
  goal_description :: string
  current_path_depth :: int
  max_path_depth :: int
  api_calls :: nat

datatype py_error = KeyError | AttributeError

section \<open>The narrative service\<close>

text \<open>
  Each of the three \<open>try\<close> blocks of the source calls the service once and reads the
  reply. The outcome of a block's call and decoding is \<open>None\<close> when anything in it
  raises (transport failure, \<open>json.loads\<close>, a missing required key, an item with
  unknown fields) and the decoded data otherwise, with values of the annotated types.
  Keys read with \<open>.get\<close> are optional. The outcome may depend on the number of calls
  made before and on what the prompt is built from.
\<close>

record theme_data =
  theme :: string
  goal :: string
  backstory :: string

record item_data =
  d_name :: string
  d_description :: string
  d_can_take :: "bool option"

record room_data =
  rd_name :: string
  rd_description :: string
  rd_atmosphere :: "string option"
  rd_items :: "item_data list"
  rd_hints :: "string list option"
  rd_story_context :: "string option"
  rd_suggested_exits :: "(string \<times> string) list"
  rd_is_goal :: "bool option"

record room_request =
  rq_story_theme :: string
  rq_goal :: string
  rq_depth :: int
  rq_max_depth :: int
  rq_previous :: string

record hint_request =
  hq_room :: string
  hq_description :: string
  hq_items :: string
  hq_inventory :: string
  hq_exits :: string

record client =
  theme_reply :: "nat \<Rightarrow> theme_data option"
  room_reply :: "nat \<Rightarrow> room_request \<Rightarrow> room_data option"
  hint_reply :: "nat \<Rightarrow> hint_request \<Rightarrow> string option"

section \<open>Player and Game\<close>

definition new_player :: "string \<Rightarrow> player" where
  "new_player n = \<lparr>player_name = n, inventory = [], current_room = None\<rparr>"

definition take_item :: "player \<Rightarrow> item \<Rightarrow> bool \<times> player" where
  "take_item p it =
     (if can_take it then (True, p\<lparr>inventory := inventory p @ [it]\<rparr>) else (False, p))"

definition new_game :: game where
  "new_game =
     \<lparr>rooms = Map.empty, player = None, story_theme = [], goal_description = [],
      current_path_depth = 0, max_path_depth = 10, api_calls = 0\<rparr>"

definition generate_story_theme :: "client \<Rightarrow> game \<Rightarrow> game" where
  "generate_story_theme cl g =
     (let g1 = g\<lparr>api_calls := Suc (api_calls g)\<rparr> in
      case theme_reply cl (api_calls g) of
        Some story_data \<Rightarrow>
          g1\<lparr>story_theme := theme story_data, goal_description := goal story_data\<rparr>
      | None \<Rightarrow>
          g1\<lparr>story_theme := ''A mysterious adventure'',
             goal_description := ''Discover the truth and find your way home''\<rparr>)"

definition create_fallback_room :: "string \<Rightarrow> room" where
  "create_fallback_room room_id =
     \<lparr>name = ''Mysterious Chamber'',
      description = ''A mysterious chamber with shifting walls.'',
      items = [],
      exits = [(''forward'', room_id @ ''_forward''), (''back'', ''start'')],
      visited = False,
      hints = Some [''The path ahead seems to pulse with energy.''],
      atmosphere = ''The air crackles with unknown forces.'',
      story_context = ''A mysterious point in your journey.'',
      is_goal = False\<rparr>"

definition make_item :: "item_data \<Rightarrow> item" where
  "make_item d =
     \<lparr>item_name = d_name d, item_description = d_description d,
      can_take = (case d_can_take d of None \<Rightarrow> True | Some b \<Rightarrow> b)\<rparr>"

fun make_exits ::
  "string \<Rightarrow> (string \<times> string) list \<Rightarrow> (string \<times> string) list \<Rightarrow> (string \<times> string) list"
where
  "make_exits room_id acc [] = acc"
| "make_exits room_id acc ((direction, desc) # rest) =
     make_exits room_id (AList.update direction (room_id @ ''_'' @ direction) acc) rest"

definition room_prompt :: "game \<Rightarrow> room option \<Rightarrow> room_request" where
  "room_prompt g previous_room =
     \<lparr>rq_story_theme = story_theme g,
      rq_goal = goal_description g,
      rq_depth = current_path_depth g,
      rq_max_depth = max_path_depth g,
      rq_previous =
        (case previous_room of None \<Rightarrow> ''Starting point'' | Some r \<Rightarrow> story_context r)\<rparr>"

definition generate_room :: "client \<Rightarrow> string \<Rightarrow> room option \<Rightarrow> game \<Rightarrow> room \<times> game" where
  "generate_room cl room_id previous_room g =
     (let g1 = g\<lparr>api_calls := Suc (api_calls g)\<rparr> in
      case room_reply cl (api_calls g) (room_prompt g previous_room) of
        Some rd \<Rightarrow>
          (\<lparr>name = rd_name rd,
            description = rd_description rd,
            items = map make_item (rd_items rd),
            exits = make_exits room_id [] (rd_suggested_exits rd),
            visited = False,
            hints = Some (case rd_hints rd of None \<Rightarrow> [] | Some hs \<Rightarrow> hs),
            atmosphere = (case rd_atmosphere rd of None \<Rightarrow> [] | Some a \<Rightarrow> a),
            story_context = (case rd_story_context rd of None \<Rightarrow> [] | Some s \<Rightarrow> s),
            is_goal = (case rd_is_goal rd of None \<Rightarrow> False | Some b \<Rightarrow> b)\<rparr>, g1)
      | None \<Rightarrow> (create_fallback_room room_id, g1))"

definition initialize_game :: "client \<Rightarrow> game \<Rightarrow> game" where
  "initialize_game cl g =
     (let g1 = generate_story_theme cl g;
          (starting_room, g2) = generate_room cl ''start'' None g1;
          g3 = g2\<lparr>rooms := (rooms g2)(''start'' \<mapsto> starting_room)\<rparr>
      in g3\<lparr>player := Some ((new_player ''Adventurer'')\<lparr>current_room := Some ''start''\<rparr>)\<rparr>)"

text \<open>\<open>self.rooms[self.player.current_room]\<close>, with the two ways it can raise.\<close>

definition the_current_room :: "game \<Rightarrow> py_error + (player \<times> string \<times> room)" where
  "the_current_room g =
     (case player g of
        None \<Rightarrow> Inl AttributeError
      | Some p \<Rightarrow>
          (case current_room p of
             None \<Rightarrow> Inl KeyError
           | Some rid \<Rightarrow>
               (case rooms g rid of
                  None \<Rightarrow> Inl KeyError
                | Some r \<Rightarrow> Inr (p, rid, r))))"

definition handle_goal_room :: "game \<Rightarrow> py_error + string" where
  "handle_goal_room g =
     (case the_current_room g of
        Inl e \<Rightarrow> Inl e
      | Inr (p, rid, r) \<Rightarrow>
          Inr (''\<newline>'' @ description r @ ''\<newline>\<newline>Congratulations! ''
               @ goal_description g
               @ ''\<newline>\<newline>You have completed your quest! Would you like to:''
               @ ''\<newline>1. Continue exploring''
               @ ''\<newline>2. Start a new adventure (type 'quit' and restart)\<newline>''))"

text \<open>The parts \<open>cmd_look\<close> always renders, and the parts of a first rendering.\<close>

definition look_parts :: "room \<Rightarrow> string list" where
  "look_parts r =
     [''\<newline>'' @ upper_str (name r) @ ''\<newline>'',
      description r,
      ''\<newline>'' @ atmosphere r,
      ''\<newline>'']
     @ (if items r \<noteq> []
        then [py_join ''\<newline>''
                (map (\<lambda>it. ''There is '' @ item_name it @ '' here.'') (items r))]
        else [])
     @ [''\<newline>'' @ (if exits r \<noteq> []
                     then ''Exits: '' @ py_join '', '' (map fst (exits r))
                     else ''There are no obvious exits.'')]"

definition hint_parts :: "room \<Rightarrow> string list" where
  "hint_parts r =
     (case hints r of
        None \<Rightarrow> []
      | Some hs \<Rightarrow>
          if hs \<noteq> []
          then ''\<newline>As you take in your surroundings, you notice:''
               # map (\<lambda>hint. ''- '' @ hint) hs
          else [])"

definition cmd_look :: "game \<Rightarrow> py_error + (string \<times> game)" where
  "cmd_look g =
     (case the_current_room g of
        Inl e \<Rightarrow> Inl e
      | Inr (p, rid, r) \<Rightarrow>
          if \<not> visited r
          then Inr (py_join ''\<newline>'' (look_parts r @ hint_parts r),
                    g\<lparr>rooms := (rooms g)(rid \<mapsto> r\<lparr>visited := True\<rparr>)\<rparr>)
          else Inr (py_join ''\<newline>'' (look_parts r), g))"

definition handle_room_transition ::
  "client \<Rightarrow> string \<Rightarrow> game \<Rightarrow> py_error + (string \<times> game)"
where
  "handle_room_transition cl direction g =
     (case the_current_room g of
        Inl e \<Rightarrow> Inl e
      | Inr (p, rid, current) \<Rightarrow>
          (case map_of (exits current) direction of
             None \<Rightarrow> Inr (''You can't go that way.'', g)
           | Some next_room_id \<Rightarrow>
               (let g1 =
                      (if rooms g next_room_id = None
                       then (let g' = g\<lparr>current_path_depth := current_path_depth g + 1\<rparr>;
                                 (new_room, g'') = generate_room cl next_room_id (Some current) g'
                             in g''\<lparr>rooms := (rooms g'')(next_room_id \<mapsto> new_room)\<rparr>)
                       else g);
                    g2 = g1\<lparr>player := Some (p\<lparr>current_room := Some next_room_id\<rparr>)\<rparr>
                in case rooms g2 next_room_id of
                     None \<Rightarrow> Inl KeyError
                   | Some r \<Rightarrow>
                       if is_goal r
                       then (case handle_goal_room g2 of
                               Inl e \<Rightarrow> Inl e
                             | Inr text \<Rightarrow> Inr (text, g2))
                       else cmd_look g2)))"

definition cmd_move :: "client \<Rightarrow> string \<Rightarrow> game \<Rightarrow> py_error + (string \<times> game)" where
  "cmd_move cl direction g = handle_room_transition cl direction g"

definition cmd_inventory :: "game \<Rightarrow> py_error + string" where
  "cmd_inventory g =
     (case player g of
        None \<Rightarrow> Inl AttributeError
      | Some p \<Rightarrow>
          if inventory p = [] then Inr ''You are empty-handed.''
          else Inr (''You are carrying:\<newline>''
                    @ py_join ''\<newline>'' (map (\<lambda>it. ''- '' @ item_name it) (inventory p))))"

text \<open>
  The loop of \<open>cmd_take\<close> over \<open>room.items\<close>: it returns at the first item whose
  lower-cased name is the noun, taken or not.
\<close>

fun take_loop :: "string \<Rightarrow> player \<Rightarrow> room \<Rightarrow> item list \<Rightarrow> string \<times> player \<times> room" where
  "take_loop noun p r [] = (''I don't see a '' @ noun @ '' here.'', p, r)"
| "take_loop noun p r (it # rest) =
     (if lower_str (item_name it) = noun
      then (case take_item p it of
              (True, p') \<Rightarrow>
                (''Taken: '' @ item_name it, p', r\<lparr>items := remove1 it (items r)\<rparr>)
            | (False, p') \<Rightarrow> (''You can't take the '' @ item_name it @ ''.'', p', r))
      else take_loop noun p r rest)"

definition cmd_take :: "string \<Rightarrow> game \<Rightarrow> py_error + (string \<times> game)" where
  "cmd_take noun g =
     (case the_current_room g of
        Inl e \<Rightarrow> Inl e
      | Inr (p, rid, r) \<Rightarrow>
          (case take_loop noun p r (items r) of
             (text, p', r') \<Rightarrow>
               Inr (text, g\<lparr>rooms := (rooms g)(rid \<mapsto> r'), player := Some p'\<rparr>)))"

definition cmd_help :: string where
  "cmd_help =
     ''Available commands:''
     @ ''\<newline>        - look: Examine your surroundings in detail''
     @ ''\<newline>        - inventory (or i): Check your inventory''
     @ ''\<newline>        - take [item]: Pick up an item''
     @ ''\<newline>        - examine [item/direction]: Look at something more closely''
     @ ''\<newline>        - n/s/e/w: Move in a direction''
     @ ''\<newline>        - hint: Get a contextual hint about what to try next''
     @ ''\<newline>        - help: Show this help message''
     @ ''\<newline>        - quit: Exit the game''"

definition hint_prompt :: "player \<Rightarrow> room \<Rightarrow> hint_request" where
  "hint_prompt p r =
     \<lparr>hq_room = name r,
      hq_description = description r,
      hq_items = py_join '', '' (map item_name (items r)),
      hq_inventory = py_join '', '' (map item_name (inventory p)),
      hq_exits = py_join '', '' (map fst (exits r))\<rparr>"

definition get_contextual_hint :: "client \<Rightarrow> game \<Rightarrow> py_error + (string \<times> game)" where
  "get_contextual_hint cl g =
     (case the_current_room g of
        Inl e \<Rightarrow> Inl e
      | Inr (p, rid, r) \<Rightarrow>
          (let g1 = g\<lparr>api_calls := Suc (api_calls g)\<rparr> in
           case hint_reply cl (api_calls g) (hint_prompt p r) of
             Some content \<Rightarrow> Inr (content, g1)
           | None \<Rightarrow>
               Inr (''You might want to examine your surroundings more carefully...'', g1)))"

fun first_described :: "string \<Rightarrow> item list \<Rightarrow> string option" where
  "first_described target [] = None"
| "first_described target (it # rest) =
     (if lower_str (item_name it) = lower_str target then Some (item_description it)
      else first_described target rest)"

definition cmd_examine :: "string \<Rightarrow> game \<Rightarrow> py_error + string" where
  "cmd_examine target g =
     (case the_current_room g of
        Inl e \<Rightarrow> Inl e
      | Inr (p, rid, r) \<Rightarrow>
          (case first_described target (inventory p) of
             Some d \<Rightarrow> Inr d
           | None \<Rightarrow>
               (case first_described target (items r) of
                  Some d \<Rightarrow> Inr d
                | None \<Rightarrow>
                    Inr (''You don't see anything special about the '' @ target @ ''.''))))"

definition with_state :: "game \<Rightarrow> py_error + string \<Rightarrow> py_error + (string \<times> game)" where
  "with_state g res = (case res of Inl e \<Rightarrow> Inl e | Inr text \<Rightarrow> Inr (text, g))"

definition process_command :: "client \<Rightarrow> string \<Rightarrow> game \<Rightarrow> py_error + (string \<times> game)" where
  "process_command cl command g =
     (case split_ws (lower_str command) of
        [] \<Rightarrow> Inr (''Please enter a command.'', g)
      | verb # others \<Rightarrow>
          (let noun = (case others of [] \<Rightarrow> [] | w # _ \<Rightarrow> w) in
           if verb = ''look'' then cmd_look g
           else if verb = ''inventory'' \<or> verb = ''i'' then with_state g (cmd_inventory g)
           else if verb \<in> set [''n'', ''s'', ''e'', ''w'', ''north'', ''south'', ''east'', ''west'']
             then cmd_move cl verb g
           else if verb = ''take'' \<and> noun \<noteq> [] then cmd_take noun g
           else if verb = ''help'' then Inr (cmd_help, g)
           else if verb = ''hint'' then get_contextual_hint cl g
           else if verb = ''examine'' \<and> noun \<noteq> [] then with_state g (cmd_examine noun g)
           else Inr (''I don't understand that command.'', g)))"

definition strip :: "string \<Rightarrow> string" where
  "strip s = rev (dropWhile is_space (rev (dropWhile is_space s)))"

text \<open>
  The inner loop of \<open>main\<close>, on the lines \<open>input\<close> returns: a stripped line that
  reads \<open>quit\<close> ends the session, any other goes to \<open>process_command\<close>. An exception
  of a command is caught and the loop goes on; commands raise before they change
  anything, so the state is then the one before the command.
\<close>

fun main_loop :: "client \<Rightarrow> string list \<Rightarrow> game \<Rightarrow> game" where
  "main_loop cl [] g = g"
| "main_loop cl (line # rest) g =
     (let command = strip line in
      if lower_str command = ''quit'' then g
      else (case process_command cl command g of
              Inl e \<Rightarrow> main_loop cl rest g
            | Inr (text, g') \<Rightarrow> main_loop cl rest g'))"

section \<open>A small world to evaluate on\<close>

definition failing_client :: client where
  "failing_client =
     \<lparr>theme_reply = (\<lambda>n. None), room_reply = (\<lambda>n rq. None), hint_reply = (\<lambda>n hq. None)\<rparr>"

definition demo_lamp :: item where
  "demo_lamp = \<lparr>item_name = ''Lamp'', item_description = ''A brass lamp.'', can_take = True\<rparr>"

definition demo_statue :: item where
  "demo_statue =
     \<lparr>item_name = ''Statue'', item_description = ''A marble statue.'', can_take = False\<rparr>"

definition demo_hall :: room where
  "demo_hall =
     \<lparr>name = ''Hall'', description = ''A stone hall.'',
      items = [demo_statue, demo_lamp],
      exits = [(''n'', ''start_n''), (''east'', ''start_east'')],
      visited = False, hints = Some [''Look east.''],
      atmosphere = ''Cold air.'', story_context = ''The beginning.'', is_goal = False\<rparr>"

definition demo_vault :: room where
  "demo_vault =
     \<lparr>name = ''Vault'', description = ''A golden vault.'',
      items = [], exits = [(''w'', ''start_east_w'')],
      visited = False, hints = Some [],
      atmosphere = ''Silence.'', story_context = ''The end.'', is_goal = True\<rparr>"

definition demo_player :: player where
  "demo_player =
     \<lparr>player_name = ''Adventurer'', inventory = [], current_room = Some ''start''\<rparr>"

definition demo_game :: game where
  "demo_game =
     \<lparr>rooms = [''start'' \<mapsto> demo_hall, ''start_east'' \<mapsto> demo_vault],
      player = Some demo_player,
      story_theme = ''A lost city'', goal_description = ''Find the vault'',
      current_path_depth = 1, max_path_depth = 10, api_calls = 3\<rparr>"

text \<open>The same world after the move \<open>n\<close> has failed to generate, and after a move back.\<close>

definition demo_chamber :: game where
  "demo_chamber =
     demo_game\<lparr>current_path_depth := 2, api_calls := 4,
       rooms := (rooms demo_game)
         (''start_n'' \<mapsto> (create_fallback_room ''start_n'')\<lparr>visited := True\<rparr>),
       player := Some (demo_player\<lparr>current_room := Some ''start_n''\<rparr>)\<rparr>"

definition demo_returned :: game where
  "demo_returned =
     demo_chamber\<lparr>
       rooms := (rooms demo_chamber)(''start'' \<mapsto> demo_hall\<lparr>visited := True\<rparr>),
       player := Some (demo_player\<lparr>current_room := Some ''start''\<rparr>)\<rparr>"

text \<open>What the player reads and where the player stands after a command.\<close>

definition text_of :: "py_error + (string \<times> game) \<Rightarrow> string option" where
  "text_of res = (case res of Inl e \<Rightarrow> None | Inr (text, g) \<Rightarrow> Some text)"

definition state_of :: "py_error + (string \<times> game) \<Rightarrow> game option" where
  "state_of res = (case res of Inl e \<Rightarrow> None | Inr (text, g) \<Rightarrow> Some g)"

definition location_of :: "game \<Rightarrow> string option" where
  "location_of g = (case player g of None \<Rightarrow> None | Some p \<Rightarrow> current_room p)"

text \<open>What \<open>handle_goal_room\<close> answers in a state, if it answers.\<close>

definition goal_text :: "game \<Rightarrow> string option" where
  "goal_text g = (case handle_goal_room g of Inl e \<Rightarrow> None | Inr msg \<Rightarrow> Some msg)"

section \<open>Predicates the statements use\<close>

text \<open>
  \<open>kept r r'\<close>: the stored room \<open>r'\<close> is \<open>r\<close> but for its items and its
  \<open>visited\<close> flag, and the flag has not gone back to false.
\<close>

definition kept :: "room \<Rightarrow> room \<Rightarrow> bool" where
  "kept r r' = (r' = r\<lparr>items := items r', visited := visited r'\<rparr> \<and> (visited r' \<or> \<not> visited r))"

text \<open>The state a transition reaches before it answers: the target realized if it was
  not, the player moved.\<close>

definition entered :: "client \<Rightarrow> player \<Rightarrow> room \<Rightarrow> string \<Rightarrow> game \<Rightarrow> game" where
  "entered cl p cur t g =
     (case rooms g t of
        Some r \<Rightarrow> g
      | None \<Rightarrow>
          g\<lparr>current_path_depth := current_path_depth g + 1,
            api_calls := Suc (api_calls g),
            rooms := (rooms g)(t \<mapsto> fst (generate_room cl t (Some cur)
                        (g\<lparr>current_path_depth := current_path_depth g + 1\<rparr>)))\<rparr>)
     \<lparr>player := Some (p\<lparr>current_room := Some t\<rparr>)\<rparr>"

text \<open>
  What a step can do to the stored rooms and the path depth: store no new room and keep
  the depth, or store one new room and raise the depth by one.
\<close>

definition no_new_room :: "game \<Rightarrow> game \<Rightarrow> bool" where
  "no_new_room g g' =
     (dom (rooms g') = dom (rooms g) \<and> current_path_depth g' = current_path_depth g)"

definition one_new_room :: "game \<Rightarrow> game \<Rightarrow> bool" where
  "one_new_room g g' =
     (\<exists>X. X \<notin> dom (rooms g) \<and> dom (rooms g') = insert X (dom (rooms g))
          \<and> current_path_depth g' = current_path_depth g + 1)"

text \<open>The commands \<open>process_command\<close> hands to \<open>cmd_move\<close>.\<close>

definition is_move_command :: "string \<Rightarrow> bool" where
  "is_move_command command =
     (case split_ws (lower_str command) of
        [] \<Rightarrow> False
      | verb # others \<Rightarrow>
          verb \<in> set [''n'', ''s'', ''e'', ''w'', ''north'', ''south'', ''east'', ''west''])"

text \<open>
  \<open>later g g'\<close>: the game \<open>g'\<close> comes from \<open>g\<close> by commands and moves that
  returned, in any number, under any service.
\<close>

inductive later :: "game \<Rightarrow> game \<Rightarrow> bool" where
  later_now: "later g g"
| later_command:
    "later g g1 \<Longrightarrow> process_command cl command g1 = Inr (msg, g2) \<Longrightarrow> later g g2"
| later_move:
    "later g g1 \<Longrightarrow> cmd_move cl direction g1 = Inr (msg, g2) \<Longrightarrow> later g g2"

section \<open>Facts about the helpers\<close>

lemma split_from_nonempty: "w \<in> set (split_from cur s) \<Longrightarrow> w \<noteq> []"
  by (induction s arbitrary: cur) (auto split: if_splits)

lemma split_ws_second_nonempty: "split_ws s = v # w # ws \<Longrightarrow> w \<noteq> []"
  using split_from_nonempty [of w "[]" s] by (simp add: split_ws_def)

lemma the_current_room_cases:
  "the_current_room g = Inr (p, rid, r) \<longleftrightarrow>
   player g = Some p \<and> current_room p = Some rid \<and> rooms g rid = Some r"
  by (auto simp: the_current_room_def split: option.splits)

lemma transition_refused:
  "the_current_room g = Inr (p, rid, cur) \<Longrightarrow> map_of (exits cur) d = None \<Longrightarrow>
   handle_room_transition cl d g = Inr (''You can't go that way.'', g)"
  by (simp add: handle_room_transition_def)

lemma kept_refl: "kept r r"
  by (simp add: kept_def)

lemma kept_trans: "kept r r' \<Longrightarrow> kept r' r'' \<Longrightarrow> kept r r''"
  by (cases r, cases r', cases r'') (auto simp: kept_def)

lemma kept_fields:
  "kept r r' \<Longrightarrow> is_goal r' = is_goal r \<and> exits r' = exits r \<and> name r' = name r
     \<and> description r' = description r \<and> hints r' = hints r \<and> atmosphere r' = atmosphere r
     \<and> story_context r' = story_context r"
  by (cases r, cases r') (auto simp: kept_def)

lemma kept_visited: "kept r r' \<Longrightarrow> visited r \<Longrightarrow> visited r'"
  by (auto simp: kept_def)

lemma generate_room_state:
  "generate_room cl X prev g = (nr, g') \<Longrightarrow> g' = g\<lparr>api_calls := Suc (api_calls g)\<rparr>"
  by (auto simp: generate_room_def Let_def split: option.splits)

lemma generate_room_unvisited:
  "generate_room cl X prev g = (nr, g') \<Longrightarrow> \<not> visited nr"
  by (auto simp: generate_room_def Let_def create_fallback_room_def split: option.splits)

lemma generate_room_failure:
  "room_reply cl (api_calls g) (room_prompt g prev) = None \<Longrightarrow>
   generate_room cl X prev g = (create_fallback_room X, g\<lparr>api_calls := Suc (api_calls g)\<rparr>)"
  by (simp add: generate_room_def Let_def)

lemma cmd_look_result:
  "the_current_room g = Inr (p, rid, r) \<Longrightarrow>
   cmd_look g =
     Inr (py_join ''\<newline>'' (look_parts r @ (if visited r then [] else hint_parts r)),
          if visited r then g else g\<lparr>rooms := (rooms g)(rid \<mapsto> r\<lparr>visited := True\<rparr>)\<rparr>)"
  by (simp add: cmd_look_def)

lemma handle_goal_room_result:
  "the_current_room g = Inr (p, rid, r) \<Longrightarrow>
   handle_goal_room g =
     Inr (''\<newline>'' @ description r @ ''\<newline>\<newline>Congratulations! ''
          @ goal_description g
          @ ''\<newline>\<newline>You have completed your quest! Would you like to:''
          @ ''\<newline>1. Continue exploring''
          @ ''\<newline>2. Start a new adventure (type 'quit' and restart)\<newline>'')"
  by (simp add: handle_goal_room_def)

lemma transition_moves:
  assumes "the_current_room g = Inr (p, rid, cur)" and "map_of (exits cur) d = Some t"
  shows "\<exists>r. rooms (entered cl p cur t g) t = Some r
     \<and> the_current_room (entered cl p cur t g) = Inr (p\<lparr>current_room := Some t\<rparr>, t, r)
     \<and> handle_room_transition cl d g =
         (if is_goal r
          then (case handle_goal_room (entered cl p cur t g) of
                  Inl e \<Rightarrow> Inl e | Inr text \<Rightarrow> Inr (text, entered cl p cur t g))
          else cmd_look (entered cl p cur t g))"
proof (cases "rooms g t")
  case None
  obtain nr g' where gen:
    "generate_room cl t (Some cur) (g\<lparr>current_path_depth := current_path_depth g + 1\<rparr>) = (nr, g')"
    by (cases "generate_room cl t (Some cur) (g\<lparr>current_path_depth := current_path_depth g + 1\<rparr>)")
  have g': "g' = g\<lparr>current_path_depth := current_path_depth g + 1, api_calls := Suc (api_calls g)\<rparr>"
    using generate_room_state [OF gen] by simp
  have ent: "entered cl p cur t g = g'\<lparr>rooms := (rooms g')(t \<mapsto> nr), player := Some (p\<lparr>current_room := Some t\<rparr>)\<rparr>"
    using None gen g' by (simp add: entered_def)
  have "rooms (entered cl p cur t g) t = Some nr" by (simp add: ent)
  moreover have "the_current_room (entered cl p cur t g) = Inr (p\<lparr>current_room := Some t\<rparr>, t, nr)"
    by (simp add: ent the_current_room_def)
  moreover have "handle_room_transition cl d g =
         (if is_goal nr
          then (case handle_goal_room (entered cl p cur t g) of
                  Inl e \<Rightarrow> Inl e | Inr text \<Rightarrow> Inr (text, entered cl p cur t g))
          else cmd_look (entered cl p cur t g))"
    unfolding ent using assms None gen by (simp add: handle_room_transition_def Let_def)
  ultimately show ?thesis by blast
next
  case (Some r)
  have ent: "entered cl p cur t g = g\<lparr>player := Some (p\<lparr>current_room := Some t\<rparr>)\<rparr>"
    using Some by (simp add: entered_def)
  have "rooms (entered cl p cur t g) t = Some r" using Some by (simp add: ent)
  moreover have "the_current_room (entered cl p cur t g) = Inr (p\<lparr>current_room := Some t\<rparr>, t, r)"
    using Some by (simp add: ent the_current_room_def)
  moreover have "handle_room_transition cl d g =
         (if is_goal r
          then (case handle_goal_room (entered cl p cur t g) of
                  Inl e \<Rightarrow> Inl e | Inr text \<Rightarrow> Inr (text, entered cl p cur t g))
          else cmd_look (entered cl p cur t g))"
    unfolding ent using assms Some by (simp add: handle_room_transition_def Let_def)
  ultimately show ?thesis by blast
qed


lemma take_loop_find:
  "take_loop noun p r its =
     (case find (\<lambda>it. lower_str (item_name it) = noun) its of
        None \<Rightarrow> (''I don't see a '' @ noun @ '' here.'', p, r)
      | Some it \<Rightarrow>
          if can_take it
          then (''Taken: '' @ item_name it, p\<lparr>inventory := inventory p @ [it]\<rparr>,
                r\<lparr>items := remove1 it (items r)\<rparr>)
          else (''You can't take the '' @ item_name it @ ''.'', p, r))"
  by (induction its) (simp_all add: take_item_def)

lemma same_state: "the_current_room g = Inr (p, rid, r) \<Longrightarrow>
   g\<lparr>rooms := (rooms g)(rid \<mapsto> r), player := Some p\<rparr> = g"
  by (simp add: the_current_room_cases map_upd_triv)

lemma cmd_take_find:
  assumes "the_current_room g = Inr (p, rid, r)"
  shows "cmd_take noun g =
     (case find (\<lambda>it. lower_str (item_name it) = noun) (items r) of
        None \<Rightarrow> Inr (''I don't see a '' @ noun @ '' here.'', g)
      | Some it \<Rightarrow>
          if can_take it
          then Inr (''Taken: '' @ item_name it,
                    g\<lparr>rooms := (rooms g)(rid \<mapsto> r\<lparr>items := remove1 it (items r)\<rparr>),
                      player := Some (p\<lparr>inventory := inventory p @ [it]\<rparr>)\<rparr>)
          else Inr (''You can't take the '' @ item_name it @ ''.'', g))"
  using assms same_state [OF assms]
  by (simp add: cmd_take_def take_loop_find split: option.splits)

lemma cmd_look_keeps:
  assumes "cmd_look g = Inr (text, g')" and "rooms g k = Some r"
  shows "\<exists>r'. rooms g' k = Some r' \<and> kept r r'"
proof -
  from assms(1) obtain p rid cur where cur: "the_current_room g = Inr (p, rid, cur)"
    by (auto simp: cmd_look_def split: sum.splits)
  from assms(1) cmd_look_result [OF cur]
  have g': "g' = (if visited cur then g else g\<lparr>rooms := (rooms g)(rid \<mapsto> cur\<lparr>visited := True\<rparr>)\<rparr>)"
    by simp
  from cur have "rooms g rid = Some cur" by (simp add: the_current_room_cases)
  with g' assms(2) show ?thesis
    by (cases "k = rid") (auto simp: kept_def)
qed

lemma cmd_take_keeps:
  assumes "cmd_take noun g = Inr (text, g')" and "rooms g k = Some r"
  shows "\<exists>r'. rooms g' k = Some r' \<and> kept r r'"
proof -
  from assms(1) obtain p rid cur where cur: "the_current_room g = Inr (p, rid, cur)"
    by (auto simp: cmd_take_def split: sum.splits)
  from cur have "rooms g rid = Some cur" by (simp add: the_current_room_cases)
  with assms cmd_take_find [OF cur, of noun] show ?thesis
    by (cases "k = rid") (auto simp: kept_def split: option.splits if_splits)
qed

lemma entered_keeps:
  assumes "rooms g k = Some r"
  shows "rooms (entered cl p cur t g) k = Some r"
  using assms by (cases "rooms g t") (auto simp: entered_def)

lemma transition_keeps:
  assumes "handle_room_transition cl d g = Inr (text, g')" and "rooms g k = Some r"
  shows "\<exists>r'. rooms g' k = Some r' \<and> kept r r'"
proof -
  from assms(1) obtain p rid cur where cur: "the_current_room g = Inr (p, rid, cur)"
    by (auto simp: handle_room_transition_def split: sum.splits)
  show ?thesis
  proof (cases "map_of (exits cur) d")
    case None
    with transition_refused [OF cur None, of cl] assms show ?thesis
      by (auto simp: kept_refl)
  next
    case (Some t)
    from transition_moves [OF cur Some, of cl] obtain nr where
      nr: "rooms (entered cl p cur t g) t = Some nr"
      and res: "handle_room_transition cl d g =
         (if is_goal nr
          then (case handle_goal_room (entered cl p cur t g) of
                  Inl e \<Rightarrow> Inl e | Inr text \<Rightarrow> Inr (text, entered cl p cur t g))
          else cmd_look (entered cl p cur t g))"
      by blast
    have k: "rooms (entered cl p cur t g) k = Some r"
      using assms(2) by (rule entered_keeps)
    show ?thesis
    proof (cases "is_goal nr")
      case True
      with res assms(1) have "g' = entered cl p cur t g"
        by (auto split: sum.splits)
      with k show ?thesis by (auto simp: kept_refl)
    next
      case False
      with res assms(1) have "cmd_look (entered cl p cur t g) = Inr (text, g')" by simp
      from cmd_look_keeps [OF this k] show ?thesis .
    qed
  qed
qed

lemma process_command_keeps:
  assumes "process_command cl command g = Inr (text, g')" and "rooms g k = Some r"
  shows "\<exists>r'. rooms g' k = Some r' \<and> kept r r'"
proof -
  have same: "\<exists>r'. rooms g k = Some r' \<and> kept r r'"
    using assms(2) by (simp add: kept_refl)
  have hint: "\<exists>r'. rooms g' k = Some r' \<and> kept r r'"
    if "get_contextual_hint cl g = Inr (text, g')"
    using that assms(2)
    by (auto simp: get_contextual_hint_def Let_def kept_refl split: sum.splits option.splits)
  from assms(1) show ?thesis
    unfolding process_command_def Let_def cmd_move_def with_state_def
    using same hint cmd_look_keeps [OF _ assms(2)] cmd_take_keeps [OF _ assms(2)]
      transition_keeps [OF _ assms(2)]
    by (auto split: list.splits if_splits sum.splits)
qed


lemma later_keeps:
  "later g g' \<Longrightarrow> rooms g k = Some r \<Longrightarrow> \<exists>r'. rooms g' k = Some r' \<and> kept r r'"
proof (induction arbitrary: r rule: later.induct)
  case (later_now g)
  then show ?case by (auto simp: kept_refl)
next
  case (later_command g g1 cl command msg g2)
  from later_command.IH [OF later_command.prems] obtain r1 where
    r1: "rooms g1 k = Some r1" "kept r r1" by blast
  from process_command_keeps [OF later_command.hyps(2) r1(1)] r1(2) show ?case
    by (auto intro: kept_trans)
next
  case (later_move g g1 cl direction msg g2)
  from later_move.IH [OF later_move.prems] obtain r1 where
    r1: "rooms g1 k = Some r1" "kept r r1" by blast
  from transition_keeps [OF later_move.hyps(2) [unfolded cmd_move_def] r1(1)] r1(2) show ?case
    by (auto intro: kept_trans)
qed

lemmas text_defs = lower_str_def lower_char_def upper_str_def upper_char_def split_ws_def
  is_space_def strip_def

lemma demo_current: "the_current_room demo_game = Inr (demo_player, ''start'', demo_hall)"
  by (simp add: the_current_room_def demo_game_def demo_player_def)

section \<open>Refused moves\<close>

text \<open>
  C5. A move in a direction that is not a key of the current room's exits answers
  "You can't go that way." and returns the game as it was: the player's room, the rooms,
  the path depth and the inventory are unchanged. This holds for \<open>cmd_move\<close> with any
  direction, and so for every movement command the interpreter accepts.
\<close>

theorem move_refused_unchanged:
  assumes "the_current_room g = Inr (p, rid, r)"
    and "direction \<notin> fst ` set (exits r)"
  shows "cmd_move cl direction g = Inr (''You can't go that way.'', g)
    \<and> (\<forall>command others.
          split_ws (lower_str command) = direction # others
          \<and> direction \<in> set [''n'', ''s'', ''e'', ''w'', ''north'', ''south'', ''east'', ''west'']
          \<longrightarrow> process_command cl command g = Inr (''You can't go that way.'', g))"
proof -
  from assms(2) have none: "map_of (exits r) direction = None"
    by (simp add: map_of_eq_None_iff)
  have move: "cmd_move cl direction g = Inr (''You can't go that way.'', g)"
    unfolding cmd_move_def using assms(1) none by (rule transition_refused)
  have "process_command cl command g = Inr (''You can't go that way.'', g)"
    if "split_ws (lower_str command) = direction # others"
      and "direction \<in> set [''n'', ''s'', ''e'', ''w'', ''north'', ''south'', ''east'', ''west'']"
    for command others
    using that move by (auto simp: process_command_def)
  with move show ?thesis by blast
qed

theorem move_refused_unchanged_witness:
  "the_current_room demo_game = Inr (demo_player, ''start'', demo_hall)
   \<and> ''north'' \<notin> fst ` set (exits demo_hall)
   \<and> cmd_move failing_client ''north'' demo_game = Inr (''You can't go that way.'', demo_game)
   \<and> split_ws (lower_str ''North now'') = [''north'', ''now'']
   \<and> process_command failing_client ''North now'' demo_game
       = Inr (''You can't go that way.'', demo_game)"
proof -
  have nokey: "''north'' \<notin> fst ` set (exits demo_hall)"
    by (simp add: demo_hall_def)
  have toks: "split_ws (lower_str ''North now'') = [''north'', ''now'']"
    by (simp add: text_defs)
  from move_refused_unchanged [OF demo_current nokey, of failing_client] demo_current nokey toks
  show ?thesis by simp
qed

section \<open>Taking items\<close>

lemma find_in_set: "find P xs = Some x \<Longrightarrow> x \<in> set xs"
  by (induction xs) (auto split: if_splits)

lemma count_remove1:
  "x \<in> set xs \<Longrightarrow> count_list (remove1 x xs) y + (if y = x then 1 else 0) = count_list xs y"
  by (induction xs) auto

text \<open>
  C6. For a command \<open>take <noun>\<close> in the current room, the item looked at is the first
  room item whose lower-cased name is the (lower-cased) noun. If it can be taken, it
  goes to the end of the inventory and leaves the room's item list: every item occurs
  as often in room and inventory together as it did before, the taken one once less
  in the room, and not at all in a room that held it once. If it cannot be taken, the
  answer is a refusal and the game is unchanged. If no item matches, the answer says it
  is not here and the game is unchanged.
\<close>

theorem take_first_match:
  assumes "split_ws (lower_str command) = ''take'' # noun # others"
    and "the_current_room g = Inr (p, rid, r)"
  shows "process_command cl command g =
     (case find (\<lambda>it. lower_str (item_name it) = noun) (items r) of
        None \<Rightarrow> Inr (''I don't see a '' @ noun @ '' here.'', g)
      | Some it \<Rightarrow>
          if can_take it
          then Inr (''Taken: '' @ item_name it,
                    g\<lparr>rooms := (rooms g)(rid \<mapsto> r\<lparr>items := remove1 it (items r)\<rparr>),
                      player := Some (p\<lparr>inventory := inventory p @ [it]\<rparr>)\<rparr>)
          else Inr (''You can't take the '' @ item_name it @ ''.'', g))
   \<and> (\<forall>it. find (\<lambda>it. lower_str (item_name it) = noun) (items r) = Some it \<longrightarrow>
         it \<in> set (items r)
         \<and> (\<forall>x. count_list (remove1 it (items r)) x + count_list (inventory p @ [it]) x
                = count_list (items r) x + count_list (inventory p) x)
         \<and> count_list (remove1 it (items r)) it < count_list (items r) it
         \<and> (distinct (items r) \<longrightarrow> it \<notin> set (remove1 it (items r))))"
proof -
  have noun: "noun \<noteq> []"
    using assms(1) by (rule split_ws_second_nonempty)
  have "process_command cl command g = cmd_take noun g"
    using assms(1) noun by (simp add: process_command_def)
  then have first: "process_command cl command g =
     (case find (\<lambda>it. lower_str (item_name it) = noun) (items r) of
        None \<Rightarrow> Inr (''I don't see a '' @ noun @ '' here.'', g)
      | Some it \<Rightarrow>
          if can_take it
          then Inr (''Taken: '' @ item_name it,
                    g\<lparr>rooms := (rooms g)(rid \<mapsto> r\<lparr>items := remove1 it (items r)\<rparr>),
                      player := Some (p\<lparr>inventory := inventory p @ [it]\<rparr>)\<rparr>)
          else Inr (''You can't take the '' @ item_name it @ ''.'', g))"
    using cmd_take_find [OF assms(2), of noun] by simp
  have second: "it \<in> set (items r)
         \<and> (\<forall>x. count_list (remove1 it (items r)) x + count_list (inventory p @ [it]) x
                = count_list (items r) x + count_list (inventory p) x)
         \<and> count_list (remove1 it (items r)) it < count_list (items r) it
         \<and> (distinct (items r) \<longrightarrow> it \<notin> set (remove1 it (items r)))"
    if "find (\<lambda>it. lower_str (item_name it) = noun) (items r) = Some it" for it
  proof -
    from that have mem: "it \<in> set (items r)" by (rule find_in_set)
    have cons: "count_list (remove1 it (items r)) x + count_list (inventory p @ [it]) x
                = count_list (items r) x + count_list (inventory p) x" for x
      using count_remove1 [OF mem, of x] by auto
    have less: "count_list (remove1 it (items r)) it < count_list (items r) it"
      using count_remove1 [OF mem, of it] by simp
    from mem cons less show ?thesis by simp
  qed
  from first second show ?thesis by blast
qed

theorem take_first_match_witness:
  "split_ws (lower_str ''take LAMP'') = [''take'', ''lamp'']
   \<and> the_current_room demo_game = Inr (demo_player, ''start'', demo_hall)
   \<and> process_command failing_client ''take LAMP'' demo_game =
       Inr (''Taken: Lamp'',
            demo_game\<lparr>rooms := (rooms demo_game)(''start'' \<mapsto> demo_hall\<lparr>items := [demo_statue]\<rparr>),
                       player := Some (demo_player\<lparr>inventory := [demo_lamp]\<rparr>)\<rparr>)
   \<and> process_command failing_client ''take statue'' demo_game =
       Inr (''You can't take the Statue.'', demo_game)
   \<and> process_command failing_client ''take sword'' demo_game =
       Inr (''I don't see a sword here.'', demo_game)"
proof -
  have t1: "split_ws (lower_str ''take LAMP'') = [''take'', ''lamp'']"
    by (simp add: text_defs)
  have t2: "split_ws (lower_str ''take statue'') = [''take'', ''statue'']"
    by (simp add: text_defs)
  have t3: "split_ws (lower_str ''take sword'') = [''take'', ''sword'']"
    by (simp add: text_defs)
  have f1: "find (\<lambda>it. lower_str (item_name it) = ''lamp'') (items demo_hall) = Some demo_lamp"
    by (simp add: demo_hall_def demo_lamp_def demo_statue_def lower_str_def lower_char_def)
  have f2: "find (\<lambda>it. lower_str (item_name it) = ''statue'') (items demo_hall) = Some demo_statue"
    by (simp add: demo_hall_def demo_lamp_def demo_statue_def lower_str_def lower_char_def)
  have f3: "find (\<lambda>it. lower_str (item_name it) = ''sword'') (items demo_hall) = None"
    by (simp add: demo_hall_def demo_lamp_def demo_statue_def lower_str_def lower_char_def)
  have rm: "remove1 demo_lamp (items demo_hall) = [demo_statue]"
    by (simp add: demo_hall_def demo_lamp_def demo_statue_def)
  have inv: "inventory demo_player = []" "can_take demo_lamp" "\<not> can_take demo_statue"
    "item_name demo_lamp = ''Lamp''" "item_name demo_statue = ''Statue''"
    by (simp_all add: demo_player_def demo_lamp_def demo_statue_def)
  from take_first_match [OF t1 demo_current, of failing_client]
    take_first_match [OF t2 demo_current, of failing_client]
    take_first_match [OF t3 demo_current, of failing_client]
    t1 demo_current
  show ?thesis by (simp add: f1 f2 f3 rm inv)
qed

section \<open>Looking\<close>



lemma visited_again: "visited r \<Longrightarrow> r\<lparr>visited := True\<rparr> = r"
  by (cases r) simp

lemma cmd_look_marks:
  assumes "the_current_room g = Inr (p, rid, r)"
  shows "cmd_look g =
     Inr (py_join ''\<newline>'' (look_parts r @ (if visited r then [] else hint_parts r)),
          g\<lparr>rooms := (rooms g)(rid \<mapsto> r\<lparr>visited := True\<rparr>)\<rparr>)"
proof (cases "visited r")
  case True
  from assms have "rooms g rid = Some r" by (simp add: the_current_room_cases)
  then have "g\<lparr>rooms := (rooms g)(rid \<mapsto> r\<lparr>visited := True\<rparr>)\<rparr> = g"
    using True by (simp add: visited_again map_upd_triv)
  with cmd_look_result [OF assms] True show ?thesis by simp
next
  case False
  with cmd_look_result [OF assms] show ?thesis by simp
qed



section \<open>Moving\<close>

lemma py_join_starts: "\<exists>rest. py_join sep ((c # x) # xs) = c # rest"
  by (cases xs) simp_all

lemma look_text_starts:
  "\<exists>rest. py_join ''\<newline>'' (look_parts r @ more_parts) = CHR 0x0A # rest"
  unfolding look_parts_def by (simp add: py_join_starts)

lemma entered_fields:
  "player (entered cl p cur t g) = Some (p\<lparr>current_room := Some t\<rparr>)"
  "goal_description (entered cl p cur t g) = goal_description g"
  "story_theme (entered cl p cur t g) = story_theme g"
  "max_path_depth (entered cl p cur t g) = max_path_depth g"
  by (simp_all add: entered_def split: option.splits)

lemma entered_present:
  "rooms g t = Some r \<Longrightarrow>
   entered cl p cur t g = g\<lparr>player := Some (p\<lparr>current_room := Some t\<rparr>)\<rparr>"
  by (simp add: entered_def)

lemma entered_absent:
  "rooms g t = None \<Longrightarrow>
   rooms (entered cl p cur t g) =
     (rooms g)(t \<mapsto> fst (generate_room cl t (Some cur)
                (g\<lparr>current_path_depth := current_path_depth g + 1\<rparr>)))
   \<and> current_path_depth (entered cl p cur t g) = current_path_depth g + 1
   \<and> api_calls (entered cl p cur t g) = Suc (api_calls g)"
  by (simp add: entered_def)

text \<open>What a transition through an existing exit returns, case by case.\<close>

lemma transition_cases:
  assumes "the_current_room g = Inr (p, rid, cur)" and "map_of (exits cur) d = Some t"
  shows "\<exists>r. rooms (entered cl p cur t g) t = Some r
     \<and> (case rooms g t of None \<Rightarrow> \<not> visited r | Some r0 \<Rightarrow> r = r0)
     \<and> handle_room_transition cl d g =
         (if is_goal r
          then Inr (''\<newline>'' @ description r @ ''\<newline>\<newline>Congratulations! ''
                    @ goal_description g
                    @ ''\<newline>\<newline>You have completed your quest! Would you like to:''
                    @ ''\<newline>1. Continue exploring''
                    @ ''\<newline>2. Start a new adventure (type 'quit' and restart)\<newline>'',
                    entered cl p cur t g)
          else Inr (py_join ''\<newline>'' (look_parts r @ (if visited r then [] else hint_parts r)),
                    (entered cl p cur t g)
                      \<lparr>rooms := (rooms (entered cl p cur t g))(t \<mapsto> r\<lparr>visited := True\<rparr>)\<rparr>))"
proof -
  from transition_moves [OF assms, of cl] obtain r where
    r: "rooms (entered cl p cur t g) t = Some r"
    and c: "the_current_room (entered cl p cur t g) = Inr (p\<lparr>current_room := Some t\<rparr>, t, r)"
    and res: "handle_room_transition cl d g =
         (if is_goal r
          then (case handle_goal_room (entered cl p cur t g) of
                  Inl e \<Rightarrow> Inl e | Inr text \<Rightarrow> Inr (text, entered cl p cur t g))
          else cmd_look (entered cl p cur t g))"
    by blast
  have v: "(case rooms g t of None \<Rightarrow> \<not> visited r | Some r0 \<Rightarrow> r = r0)"
  proof (cases "rooms g t")
    case None
    obtain nr g' where gen: "generate_room cl t (Some cur)
        (g\<lparr>current_path_depth := current_path_depth g + 1\<rparr>) = (nr, g')"
      by (cases "generate_room cl t (Some cur) (g\<lparr>current_path_depth := current_path_depth g + 1\<rparr>)")
    from r None gen have "r = nr" by (simp add: entered_absent)
    with generate_room_unvisited [OF gen] None show ?thesis by simp
  next
    case (Some r0)
    with r show ?thesis by (simp add: entered_present)
  qed
  from res r v show ?thesis
    by (simp add: handle_goal_room_result [OF c] cmd_look_marks [OF c] entered_fields)
qed

lemma transition_arrives:
  assumes "the_current_room g = Inr (p, rid, cur)" and "map_of (exits cur) d = Some t"
  shows "\<exists>msg g' r'. handle_room_transition cl d g = Inr (msg, g')
     \<and> the_current_room g' = Inr (p\<lparr>current_room := Some t\<rparr>, t, r')
     \<and> msg \<noteq> ''You can't go that way.''"
proof -
  from transition_cases [OF assms, of cl] obtain r where
    r: "rooms (entered cl p cur t g) t = Some r"
    and res: "handle_room_transition cl d g =
         (if is_goal r
          then Inr (''\<newline>'' @ description r @ ''\<newline>\<newline>Congratulations! ''
                    @ goal_description g
                    @ ''\<newline>\<newline>You have completed your quest! Would you like to:''
                    @ ''\<newline>1. Continue exploring''
                    @ ''\<newline>2. Start a new adventure (type 'quit' and restart)\<newline>'',
                    entered cl p cur t g)
          else Inr (py_join ''\<newline>'' (look_parts r @ (if visited r then [] else hint_parts r)),
                    (entered cl p cur t g)
                      \<lparr>rooms := (rooms (entered cl p cur t g))(t \<mapsto> r\<lparr>visited := True\<rparr>)\<rparr>))"
    by blast
  show ?thesis
  proof (cases "is_goal r")
    case True
    with res r show ?thesis
      by (simp add: the_current_room_cases entered_fields)
  next
    case False
    from look_text_starts [of r "if visited r then [] else hint_parts r"]
    have "py_join ''\<newline>'' (look_parts r @ (if visited r then [] else hint_parts r))
        \<noteq> ''You can't go that way.''"
      by auto
    with False res r show ?thesis
      by (simp add: the_current_room_cases entered_fields)
  qed
qed

text \<open>
  C8. When a move ends in a room whose \<open>is_goal\<close> flag is set, the answer is the
  completion message built from the room's description and the session's
  \<open>goal_description\<close>; the room is not rendered (a stored room is left as it was, a
  new one stays unvisited). The player stands in the goal room, the command loop
  carries on with the remaining lines, and a further \<open>cmd_move\<close> through any exit of
  the goal room, under any service, is not refused and puts the player in the exit's
  target.
\<close>

theorem goal_room_not_terminal:
  assumes "the_current_room g = Inr (p, rid, cur)"
    and "map_of (exits cur) d = Some t"
    and "cmd_move cl d g = Inr (msg, g1)"
    and "rooms g1 t = Some r"
    and "is_goal r"
  shows "msg = ''\<newline>'' @ description r @ ''\<newline>\<newline>Congratulations! ''
               @ goal_description g
               @ ''\<newline>\<newline>You have completed your quest! Would you like to:''
               @ ''\<newline>1. Continue exploring''
               @ ''\<newline>2. Start a new adventure (type 'quit' and restart)\<newline>''
    \<and> the_current_room g1 = Inr (p\<lparr>current_room := Some t\<rparr>, t, r)
    \<and> (case rooms g t of None \<Rightarrow> \<not> visited r | Some r0 \<Rightarrow> r = r0)
    \<and> (\<forall>cl2 d2 t2. map_of (exits r) d2 = Some t2 \<longrightarrow>
          text_of (cmd_move cl2 d2 g1) \<noteq> None
          \<and> text_of (cmd_move cl2 d2 g1) \<noteq> Some ''You can't go that way.''
          \<and> map_option location_of (state_of (cmd_move cl2 d2 g1)) = Some (Some t2))
    \<and> (\<forall>line others rest.
          split_ws (lower_str (strip line)) = d # others
          \<and> d \<in> set [''n'', ''s'', ''e'', ''w'', ''north'', ''south'', ''east'', ''west'']
          \<longrightarrow> main_loop cl (line # rest) g = main_loop cl rest g1)"
proof -
  from transition_cases [OF assms(1,2), of cl] obtain nr where
    nr: "rooms (entered cl p cur t g) t = Some nr"
    and v: "(case rooms g t of None \<Rightarrow> \<not> visited nr | Some r0 \<Rightarrow> nr = r0)"
    and res: "handle_room_transition cl d g =
         (if is_goal nr
          then Inr (''\<newline>'' @ description nr @ ''\<newline>\<newline>Congratulations! ''
                    @ goal_description g
                    @ ''\<newline>\<newline>You have completed your quest! Would you like to:''
                    @ ''\<newline>1. Continue exploring''
                    @ ''\<newline>2. Start a new adventure (type 'quit' and restart)\<newline>'',
                    entered cl p cur t g)
          else Inr (py_join ''\<newline>'' (look_parts nr @ (if visited nr then [] else hint_parts nr)),
                    (entered cl p cur t g)
                      \<lparr>rooms := (rooms (entered cl p cur t g))(t \<mapsto> nr\<lparr>visited := True\<rparr>)\<rparr>))"
    by blast
  have goal: "is_goal nr"
  proof (rule ccontr)
    assume "\<not> is_goal nr"
    with res assms(3) have "rooms g1 t = Some (nr\<lparr>visited := True\<rparr>)"
      by (auto simp: cmd_move_def)
    with assms(4,5) \<open>\<not> is_goal nr\<close> show False by auto
  qed
  with res assms(3) have g1: "g1 = entered cl p cur t g"
    and msg: "msg = ''\<newline>'' @ description nr @ ''\<newline>\<newline>Congratulations! ''
               @ goal_description g
               @ ''\<newline>\<newline>You have completed your quest! Would you like to:''
               @ ''\<newline>1. Continue exploring''
               @ ''\<newline>2. Start a new adventure (type 'quit' and restart)\<newline>''"
    by (auto simp: cmd_move_def)
  from g1 nr assms(4) have eq: "nr = r" by simp
  have here: "the_current_room g1 = Inr (p\<lparr>current_room := Some t\<rparr>, t, r)"
    using g1 nr eq by (simp add: the_current_room_cases entered_fields)
  have onward: "text_of (cmd_move cl2 d2 g1) \<noteq> None
          \<and> text_of (cmd_move cl2 d2 g1) \<noteq> Some ''You can't go that way.''
          \<and> map_option location_of (state_of (cmd_move cl2 d2 g1)) = Some (Some t2)"
    if "map_of (exits r) d2 = Some t2" for cl2 d2 t2
  proof -
    from transition_arrives [OF here that, of cl2] obtain msg2 g2 r2 where
      "handle_room_transition cl2 d2 g1 = Inr (msg2, g2)"
      "the_current_room g2 = Inr (p\<lparr>current_room := Some t, current_room := Some t2\<rparr>, t2, r2)"
      "msg2 \<noteq> ''You can't go that way.''"
      by auto
    then show ?thesis
      by (simp add: cmd_move_def text_of_def state_of_def location_of_def the_current_room_cases)
  qed
  have goes_on: "main_loop cl (line # rest) g = main_loop cl rest g1"
    if toks: "split_ws (lower_str (strip line)) = d # others"
      and verb: "d \<in> set [''n'', ''s'', ''e'', ''w'', ''north'', ''south'', ''east'', ''west'']"
    for line others rest
  proof -
    have "split_ws ''quit'' = [''quit'']"
      by (simp add: split_ws_def is_space_def)
    with toks verb have "lower_str (strip line) \<noteq> ''quit''"
      by auto
    moreover from toks verb assms(3)
    have "process_command cl (strip line) g = Inr (msg, g1)"
      by (auto simp: process_command_def)
    ultimately show ?thesis by simp
  qed
  from msg eq here v onward goes_on show ?thesis by blast
qed

theorem goal_room_not_terminal_witness:
  "the_current_room demo_game = Inr (demo_player, ''start'', demo_hall)
   \<and> map_of (exits demo_hall) ''east'' = Some ''start_east''
   \<and> cmd_move failing_client ''east'' demo_game =
       Inr (''\<newline>A golden vault.\<newline>\<newline>Congratulations! Find the vault''
            @ ''\<newline>\<newline>You have completed your quest! Would you like to:''
            @ ''\<newline>1. Continue exploring''
            @ ''\<newline>2. Start a new adventure (type 'quit' and restart)\<newline>'',
            demo_game\<lparr>player := Some (demo_player\<lparr>current_room := Some ''start_east''\<rparr>)\<rparr>)
   \<and> is_goal demo_vault
   \<and> map_of (exits demo_vault) ''w'' = Some ''start_east_w''
   \<and> map_option location_of (state_of (cmd_move failing_client ''w''
        (demo_game\<lparr>player := Some (demo_player\<lparr>current_room := Some ''start_east''\<rparr>)\<rparr>)))
       = Some (Some ''start_east_w'')
   \<and> location_of (main_loop failing_client [''  East'', ''w''] demo_game) = Some ''start_east_w''"
proof -
  let ?g1 = "demo_game\<lparr>player := Some (demo_player\<lparr>current_room := Some ''start_east''\<rparr>)\<rparr>"
  have ex: "map_of (exits demo_hall) ''east'' = Some ''start_east''"
    by (simp add: demo_hall_def)
  have stored: "rooms demo_game ''start_east'' = Some demo_vault"
    by (simp add: demo_game_def)
  have goal: "is_goal demo_vault" "description demo_vault = ''A golden vault.''"
    "map_of (exits demo_vault) ''w'' = Some ''start_east_w''"
    by (simp_all add: demo_vault_def)
  have gd: "goal_description demo_game = ''Find the vault''"
    by (simp add: demo_game_def)
  have mv: "cmd_move failing_client ''east'' demo_game =
       Inr (''\<newline>A golden vault.\<newline>\<newline>Congratulations! Find the vault''
            @ ''\<newline>\<newline>You have completed your quest! Would you like to:''
            @ ''\<newline>1. Continue exploring''
            @ ''\<newline>2. Start a new adventure (type 'quit' and restart)\<newline>'', ?g1)"
    using demo_current ex stored goal gd
    by (simp add: cmd_move_def handle_room_transition_def handle_goal_room_def
        the_current_room_def)
  have stored1: "rooms ?g1 ''start_east'' = Some demo_vault"
    using stored by simp
  note fact = goal_room_not_terminal [OF demo_current ex mv stored1 goal(1)]
  from fact goal(3) have "map_option location_of (state_of (cmd_move failing_client ''w'' ?g1))
       = Some (Some ''start_east_w'')"
    by blast
  moreover have "location_of (main_loop failing_client [''  East'', ''w''] demo_game)
      = Some ''start_east_w''"
  proof -
    have "split_ws (lower_str (strip ''  East'')) = [''east'']"
      by (simp add: text_defs)
    with fact have "main_loop failing_client [''  East'', ''w''] demo_game
        = main_loop failing_client [''w''] ?g1"
      by simp
    moreover have "split_ws (lower_str (strip ''w'')) = [''w'']" "lower_str (strip ''w'') \<noteq> ''quit''"
      by (simp_all add: text_defs)
    moreover from fact goal(3)
    have "map_option location_of (state_of (cmd_move failing_client ''w'' ?g1))
       = Some (Some ''start_east_w'')"
      by blast
    ultimately show ?thesis
      by (auto simp: process_command_def state_of_def split: sum.splits)
  qed
  ultimately show ?thesis using demo_current ex mv goal by simp
qed

section \<open>Fallback rooms\<close>

lemma fallback_fields:
  "exits (create_fallback_room X) = [(''forward'', X @ ''_forward''), (''back'', ''start'')]"
  "name (create_fallback_room X) = ''Mysterious Chamber''"
  "description (create_fallback_room X) = ''A mysterious chamber with shifting walls.''"
  "items (create_fallback_room X) = []"
  "hints (create_fallback_room X) = Some [''The path ahead seems to pulse with energy.'']"
  "\<not> is_goal (create_fallback_room X)"
  "\<not> visited (create_fallback_room X)"
  by (simp_all add: create_fallback_room_def)

text \<open>A transition whose generation call fails: what it answers and the state it leaves.\<close>

lemma transition_fallback:
  assumes "the_current_room g = Inr (p, rid, cur)"
    and "map_of (exits cur) d = Some X"
    and "rooms g X = None"
    and "room_reply cl (api_calls g)
           (room_prompt (g\<lparr>current_path_depth := current_path_depth g + 1\<rparr>) (Some cur)) = None"
  shows "handle_room_transition cl d g =
     Inr (py_join ''\<newline>'' (look_parts (create_fallback_room X) @ hint_parts (create_fallback_room X)),
          g\<lparr>current_path_depth := current_path_depth g + 1,
            api_calls := Suc (api_calls g),
            rooms := (rooms g)(X \<mapsto> (create_fallback_room X)\<lparr>visited := True\<rparr>),
            player := Some (p\<lparr>current_room := Some X\<rparr>)\<rparr>)"
proof -
  have gen: "generate_room cl X (Some cur) (g\<lparr>current_path_depth := current_path_depth g + 1\<rparr>)
      = (create_fallback_room X,
         g\<lparr>current_path_depth := current_path_depth g + 1, api_calls := Suc (api_calls g)\<rparr>)"
    using generate_room_failure [of cl "g\<lparr>current_path_depth := current_path_depth g + 1\<rparr>" "Some cur" X]
      assms(4) by simp
  have ent: "entered cl p cur X g =
      g\<lparr>current_path_depth := current_path_depth g + 1, api_calls := Suc (api_calls g),
        rooms := (rooms g)(X \<mapsto> create_fallback_room X),
        player := Some (p\<lparr>current_room := Some X\<rparr>)\<rparr>"
    using assms(3) gen by (simp add: entered_def)
  from transition_cases [OF assms(1,2), of cl] show ?thesis
    unfolding ent by (simp add: fallback_fields)
qed

text \<open>
  C4. When the generation call for a room id \<open>X\<close> fails, the room made for \<open>X\<close> is
  the fixed template: name "Mysterious Chamber", the fixed description, and exactly the
  exits \<open>forward\<close> to \<open>X_forward\<close> and \<open>back\<close> to \<open>start\<close>. A move that
  realizes \<open>X\<close> this way stores the template under \<open>X\<close> (marked visited by the
  rendering the move returns), leaves the stored \<open>start\<close> room as it was, and a move
  \<open>back\<close> from there puts the player in \<open>start\<close>. When the call fails at
  initialization, \<open>start\<close> itself is the template and the player stands in it.
\<close>

theorem fallback_room_navigable:
  assumes "the_current_room g = Inr (p, rid, cur)"
    and "map_of (exits cur) d = Some X"
    and "rooms g X = None"
    and "room_reply cl (api_calls g)
           (room_prompt (g\<lparr>current_path_depth := current_path_depth g + 1\<rparr>) (Some cur)) = None"
    and "rooms g ''start'' = Some s"
  shows "exits (create_fallback_room X) = [(''forward'', X @ ''_forward''), (''back'', ''start'')]
    \<and> name (create_fallback_room X) = ''Mysterious Chamber''
    \<and> description (create_fallback_room X) = ''A mysterious chamber with shifting walls.''
    \<and> fst (generate_room cl X (Some cur) (g\<lparr>current_path_depth := current_path_depth g + 1\<rparr>))
        = create_fallback_room X
    \<and> state_of (cmd_move cl d g) =
        Some (g\<lparr>current_path_depth := current_path_depth g + 1,
                api_calls := Suc (api_calls g),
                rooms := (rooms g)(X \<mapsto> (create_fallback_room X)\<lparr>visited := True\<rparr>),
                player := Some (p\<lparr>current_room := Some X\<rparr>)\<rparr>)
    \<and> (\<forall>g1. state_of (cmd_move cl d g) = Some g1 \<longrightarrow>
          rooms g1 X = Some ((create_fallback_room X)\<lparr>visited := True\<rparr>)
          \<and> rooms g1 ''start'' = Some s
          \<and> (\<forall>cl2. map_option location_of (state_of (cmd_move cl2 ''back'' g1))
                      = Some (Some ''start'')))
    \<and> (\<forall>g0. room_reply cl (api_calls (generate_story_theme cl g0))
                (room_prompt (generate_story_theme cl g0) None) = None \<longrightarrow>
          rooms (initialize_game cl g0) ''start'' = Some (create_fallback_room ''start'')
          \<and> location_of (initialize_game cl g0) = Some ''start'')"
proof -
  let ?fb = "create_fallback_room X"
  let ?g1 = "g\<lparr>current_path_depth := current_path_depth g + 1,
                api_calls := Suc (api_calls g),
                rooms := (rooms g)(X \<mapsto> ?fb\<lparr>visited := True\<rparr>),
                player := Some (p\<lparr>current_room := Some X\<rparr>)\<rparr>"
  have gen: "fst (generate_room cl X (Some cur) (g\<lparr>current_path_depth := current_path_depth g + 1\<rparr>)) = ?fb"
    using generate_room_failure [of cl "g\<lparr>current_path_depth := current_path_depth g + 1\<rparr>" "Some cur" X]
      assms(4) by simp
  have st: "state_of (cmd_move cl d g) = Some ?g1"
    using transition_fallback [OF assms(1-4)] by (simp add: cmd_move_def state_of_def)
  from assms(3,5) have ne: "X \<noteq> ''start''" by auto
  have here: "the_current_room ?g1 = Inr (p\<lparr>current_room := Some X\<rparr>, X, ?fb\<lparr>visited := True\<rparr>)"
    by (simp add: the_current_room_def)
  have goes_back: "map_option location_of (state_of (cmd_move cl2 ''back'' ?g1)) = Some (Some ''start'')"
    for cl2
  proof -
    have "map_of (exits (?fb\<lparr>visited := True\<rparr>)) ''back'' = Some ''start''"
      by (simp add: fallback_fields)
    from transition_arrives [OF here this, of cl2] show ?thesis
      by (auto simp: cmd_move_def state_of_def location_of_def the_current_room_cases)
  qed
  have after: "rooms g1 X = Some (?fb\<lparr>visited := True\<rparr>) \<and> rooms g1 ''start'' = Some s
          \<and> (\<forall>cl2. map_option location_of (state_of (cmd_move cl2 ''back'' g1))
                      = Some (Some ''start''))"
    if "state_of (cmd_move cl d g) = Some g1" for g1
  proof -
    from that st have "g1 = ?g1" by simp
    with goes_back assms(5) ne show ?thesis by simp
  qed
  have init: "rooms (initialize_game cl g0) ''start'' = Some (create_fallback_room ''start'')
          \<and> location_of (initialize_game cl g0) = Some ''start''"
    if "room_reply cl (api_calls (generate_story_theme cl g0))
                (room_prompt (generate_story_theme cl g0) None) = None" for g0
    using generate_room_failure [OF that, of "''start''"]
    by (simp add: initialize_game_def location_of_def new_player_def)
  from gen st after init show ?thesis
    by (simp add: fallback_fields)
qed


lemma demo_n_fails:
  "map_of (exits demo_hall) ''n'' = Some ''start_n''"
  "rooms demo_game ''start_n'' = None"
  "room_reply failing_client (api_calls demo_game)
     (room_prompt (demo_game\<lparr>current_path_depth := current_path_depth demo_game + 1\<rparr>)
        (Some demo_hall)) = None"
  "rooms demo_game ''start'' = Some demo_hall"
  by (simp_all add: demo_hall_def demo_game_def failing_client_def)

theorem fallback_room_navigable_witness:
  "the_current_room demo_game = Inr (demo_player, ''start'', demo_hall)
   \<and> map_of (exits demo_hall) ''n'' = Some ''start_n''
   \<and> rooms demo_game ''start_n'' = None
   \<and> room_reply failing_client (api_calls demo_game)
        (room_prompt (demo_game\<lparr>current_path_depth := current_path_depth demo_game + 1\<rparr>)
           (Some demo_hall)) = None
   \<and> rooms demo_game ''start'' = Some demo_hall
   \<and> exits (create_fallback_room ''start_n'')
       = [(''forward'', ''start_n_forward''), (''back'', ''start'')]
   \<and> state_of (cmd_move failing_client ''n'' demo_game) =
       Some (demo_game\<lparr>current_path_depth := 2, api_calls := 4,
               rooms := (rooms demo_game)
                 (''start_n'' \<mapsto> (create_fallback_room ''start_n'')\<lparr>visited := True\<rparr>),
               player := Some (demo_player\<lparr>current_room := Some ''start_n''\<rparr>)\<rparr>)
   \<and> map_option location_of
        (state_of (cmd_move failing_client ''back''
           (demo_game\<lparr>current_path_depth := 2, api_calls := 4,
               rooms := (rooms demo_game)
                 (''start_n'' \<mapsto> (create_fallback_room ''start_n'')\<lparr>visited := True\<rparr>),
               player := Some (demo_player\<lparr>current_room := Some ''start_n''\<rparr>)\<rparr>)))
       = Some (Some ''start'')
   \<and> room_reply failing_client (api_calls (generate_story_theme failing_client new_game))
        (room_prompt (generate_story_theme failing_client new_game) None) = None
   \<and> rooms (initialize_game failing_client new_game) ''start''
       = Some (create_fallback_room ''start'')"
proof -
  note fact = fallback_room_navigable [OF demo_current demo_n_fails]
  have nums: "current_path_depth demo_game + 1 = 2" "Suc (api_calls demo_game) = 4"
    by (simp_all add: demo_game_def)
  have init: "room_reply failing_client (api_calls (generate_story_theme failing_client new_game))
        (room_prompt (generate_story_theme failing_client new_game) None) = None"
    by (simp add: failing_client_def)
  from fact have a: "exits (create_fallback_room ''start_n'')
       = [(''forward'', ''start_n_forward''), (''back'', ''start'')]"
    by simp
  from fact have b: "state_of (cmd_move failing_client ''n'' demo_game) =
       Some (demo_game\<lparr>current_path_depth := 2, api_calls := 4,
               rooms := (rooms demo_game)
                 (''start_n'' \<mapsto> (create_fallback_room ''start_n'')\<lparr>visited := True\<rparr>),
               player := Some (demo_player\<lparr>current_room := Some ''start_n''\<rparr>)\<rparr>)"
    unfolding nums by blast
  from fact b have c: "map_option location_of
        (state_of (cmd_move failing_client ''back''
           (demo_game\<lparr>current_path_depth := 2, api_calls := 4,
               rooms := (rooms demo_game)
                 (''start_n'' \<mapsto> (create_fallback_room ''start_n'')\<lparr>visited := True\<rparr>),
               player := Some (demo_player\<lparr>current_room := Some ''start_n''\<rparr>)\<rparr>)))
       = Some (Some ''start'')"
    by blast
  from fact init have d: "rooms (initialize_game failing_client new_game) ''start''
       = Some (create_fallback_room ''start'')"
    by blast
  from a b c d init demo_current demo_n_fails show ?thesis by simp
qed

text \<open>
  The exits of the fallback room are taken by \<open>cmd_move\<close>. Typed as commands,
  \<open>back\<close> and \<open>forward\<close> are not among the verbs \<open>process_command\<close> forwards.
\<close>

lemma back_and_forward_not_commands:
  "process_command cl ''back'' g = Inr (''I don't understand that command.'', g)"
  "process_command cl ''forward'' g = Inr (''I don't understand that command.'', g)"
proof -
  have "split_ws (lower_str ''back'') = [''back'']"
    by (simp add: text_defs)
  then show "process_command cl ''back'' g = Inr (''I don't understand that command.'', g)"
    by (simp add: process_command_def)
  have "split_ws (lower_str ''forward'') = [''forward'']"
    by (simp add: text_defs)
  then show "process_command cl ''forward'' g = Inr (''I don't understand that command.'', g)"
    by (simp add: process_command_def)
qed

lemma py_join_starts2: "\<exists>rest. py_join sep ((c # c' # x) # xs) = c # c' # rest"
  by (cases xs) simp_all

lemma chamber_look_not_goal_text:
  assumes "name r = ''Mysterious Chamber''"
    and "description r = ''A mysterious chamber with shifting walls.''"
  shows "py_join ''\<newline>'' (look_parts r @ more_parts) \<noteq> ''\<newline>'' @ description r @ rest"
proof -
  have "upper_str (name r) = ''MYSTERIOUS CHAMBER''"
    using assms(1) by (simp add: upper_str_def upper_char_def)
  then have "\<exists>z. py_join ''\<newline>'' (look_parts r @ more_parts) = CHR 0x0A # CHR ''M'' # z"
    unfolding look_parts_def by (simp add: py_join_starts2)
  then show ?thesis using assms(2) by auto
qed

text \<open>
  C10. The fallback room is made with \<open>is_goal\<close> and \<open>visited\<close> false. The move that
  realizes a room through a failed generation call answers what \<open>cmd_look\<close> answers in
  the entered room, the first rendering of the template, which is not the completion
  message. Later, after any commands and moves, every move into that room again answers
  \<open>cmd_look\<close>'s rendering and not the completion message.
\<close>

theorem fallback_never_goal:
  assumes "the_current_room g = Inr (p, rid, cur)"
    and "map_of (exits cur) d = Some X"
    and "rooms g X = None"
    and "room_reply cl (api_calls g)
           (room_prompt (g\<lparr>current_path_depth := current_path_depth g + 1\<rparr>) (Some cur)) = None"
  shows "\<not> is_goal (create_fallback_room X) \<and> \<not> visited (create_fallback_room X)
    \<and> cmd_move cl d g =
        cmd_look (g\<lparr>current_path_depth := current_path_depth g + 1,
                    api_calls := Suc (api_calls g),
                    rooms := (rooms g)(X \<mapsto> create_fallback_room X),
                    player := Some (p\<lparr>current_room := Some X\<rparr>)\<rparr>)
    \<and> text_of (cmd_move cl d g) =
        Some (py_join ''\<newline>''
               (look_parts (create_fallback_room X) @ hint_parts (create_fallback_room X)))
    \<and> text_of (cmd_move cl d g) \<noteq>
        goal_text
          (g\<lparr>current_path_depth := current_path_depth g + 1,
             api_calls := Suc (api_calls g),
             rooms := (rooms g)(X \<mapsto> create_fallback_room X),
             player := Some (p\<lparr>current_room := Some X\<rparr>)\<rparr>)
    \<and> (\<forall>g1 g2 p2 rid2 cur2 d2 cl3.
          state_of (cmd_move cl d g) = Some g1
          \<and> later g1 g2
          \<and> the_current_room g2 = Inr (p2, rid2, cur2)
          \<and> map_of (exits cur2) d2 = Some X
          \<longrightarrow> cmd_move cl3 d2 g2 = cmd_look (g2\<lparr>player := Some (p2\<lparr>current_room := Some X\<rparr>)\<rparr>)
              \<and> text_of (cmd_move cl3 d2 g2) \<noteq> None
              \<and> text_of (cmd_move cl3 d2 g2) \<noteq>
                  goal_text
                    (g2\<lparr>player := Some (p2\<lparr>current_room := Some X\<rparr>)\<rparr>))"
proof -
  let ?fb = "create_fallback_room X"
  let ?e1 = "g\<lparr>current_path_depth := current_path_depth g + 1,
               api_calls := Suc (api_calls g),
               rooms := (rooms g)(X \<mapsto> ?fb),
               player := Some (p\<lparr>current_room := Some X\<rparr>)\<rparr>"
  let ?g1 = "g\<lparr>current_path_depth := current_path_depth g + 1,
               api_calls := Suc (api_calls g),
               rooms := (rooms g)(X \<mapsto> ?fb\<lparr>visited := True\<rparr>),
               player := Some (p\<lparr>current_room := Some X\<rparr>)\<rparr>"
  have res: "handle_room_transition cl d g =
      Inr (py_join ''\<newline>'' (look_parts ?fb @ hint_parts ?fb), ?g1)"
    using assms by (rule transition_fallback)
  have e1: "the_current_room ?e1 = Inr (p\<lparr>current_room := Some X\<rparr>, X, ?fb)"
    by (simp add: the_current_room_def)
  have look1: "cmd_move cl d g = cmd_look ?e1"
    unfolding cmd_move_def res cmd_look_marks [OF e1] by (simp add: fallback_fields)
  have text1: "text_of (cmd_move cl d g) = Some (py_join ''\<newline>'' (look_parts ?fb @ hint_parts ?fb))"
    by (simp add: cmd_move_def res text_of_def)
  have differs1: "text_of (cmd_move cl d g) \<noteq> goal_text ?e1"
    unfolding text1 goal_text_def handle_goal_room_result [OF e1]
    using chamber_look_not_goal_text [of ?fb "hint_parts ?fb"]
    by (simp add: fallback_fields)
  have later: "cmd_move cl3 d2 g2 = cmd_look (g2\<lparr>player := Some (p2\<lparr>current_room := Some X\<rparr>)\<rparr>)
              \<and> text_of (cmd_move cl3 d2 g2) \<noteq> None
              \<and> text_of (cmd_move cl3 d2 g2) \<noteq>
                  goal_text
                    (g2\<lparr>player := Some (p2\<lparr>current_room := Some X\<rparr>)\<rparr>)"
    if st: "state_of (cmd_move cl d g) = Some g1"
      and g2: "later g1 g2"
      and cur2: "the_current_room g2 = Inr (p2, rid2, cur2)"
      and ex2: "map_of (exits cur2) d2 = Some X"
    for g1 g2 p2 rid2 cur2 d2 cl3
  proof -
    let ?e2 = "g2\<lparr>player := Some (p2\<lparr>current_room := Some X\<rparr>)\<rparr>"
    from st res have "g1 = ?g1" by (simp add: cmd_move_def state_of_def)
    then have "rooms g1 X = Some (?fb\<lparr>visited := True\<rparr>)" by simp
    from later_keeps [OF g2 this] obtain r2 where
      r2: "rooms g2 X = Some r2" and k: "kept (?fb\<lparr>visited := True\<rparr>) r2"
      by blast
    from kept_fields [OF k] have f: "\<not> is_goal r2" "name r2 = ''Mysterious Chamber''"
      "description r2 = ''A mysterious chamber with shifting walls.''"
      by (simp_all add: fallback_fields)
    from kept_visited [OF k] have v: "visited r2" by simp
    have ent: "entered cl3 p2 cur2 X g2 = ?e2"
      using r2 by (rule entered_present)
    have e2: "the_current_room ?e2 = Inr (p2\<lparr>current_room := Some X\<rparr>, X, r2)"
      using r2 by (simp add: the_current_room_def)
    from transition_moves [OF cur2 ex2, of cl3] r2 f(1)
    have mv: "cmd_move cl3 d2 g2 = cmd_look ?e2"
      unfolding ent by (auto simp: cmd_move_def)
    have tx: "text_of (cmd_look ?e2) = Some (py_join ''\<newline>'' (look_parts r2 @ []))"
      using cmd_look_result [OF e2] v by (simp add: text_of_def)
    have "text_of (cmd_look ?e2) \<noteq> goal_text ?e2"
      unfolding tx goal_text_def handle_goal_room_result [OF e2]
      using chamber_look_not_goal_text [OF f(2,3), of "[]"]
      by simp
    with mv tx show ?thesis by simp
  qed
  have plain: "\<not> is_goal ?fb" "\<not> visited ?fb"
    by (simp_all add: fallback_fields)
  from plain look1 text1 differs1 later show ?thesis by blast
qed


lemma demo_chamber_back:
  "cmd_move failing_client ''back'' demo_chamber =
     Inr (py_join ''\<newline>'' (look_parts demo_hall @ hint_parts demo_hall), demo_returned)"
proof -
  have cur: "the_current_room demo_chamber =
      Inr (demo_player\<lparr>current_room := Some ''start_n''\<rparr>, ''start_n'',
           (create_fallback_room ''start_n'')\<lparr>visited := True\<rparr>)"
    by (simp add: demo_chamber_def the_current_room_def)
  have ex: "map_of (exits ((create_fallback_room ''start_n'')\<lparr>visited := True\<rparr>)) ''back''
      = Some ''start''"
    by (simp add: fallback_fields)
  have stored: "rooms demo_chamber ''start'' = Some demo_hall"
    by (simp add: demo_chamber_def demo_game_def)
  have plain: "\<not> is_goal demo_hall" "\<not> visited demo_hall"
    by (simp_all add: demo_hall_def)
  from transition_cases [OF cur ex, of failing_client] stored plain show ?thesis
    by (simp add: cmd_move_def entered_present demo_returned_def demo_player_def)
qed

theorem fallback_never_goal_witness:
  "the_current_room demo_game = Inr (demo_player, ''start'', demo_hall)
   \<and> map_of (exits demo_hall) ''n'' = Some ''start_n''
   \<and> rooms demo_game ''start_n'' = None
   \<and> room_reply failing_client (api_calls demo_game)
        (room_prompt (demo_game\<lparr>current_path_depth := current_path_depth demo_game + 1\<rparr>)
           (Some demo_hall)) = None
   \<and> text_of (cmd_move failing_client ''n'' demo_game) =
       Some (py_join ''\<newline>'' (look_parts (create_fallback_room ''start_n'')
                                    @ hint_parts (create_fallback_room ''start_n'')))
   \<and> state_of (cmd_move failing_client ''n'' demo_game) = Some demo_chamber
   \<and> later demo_chamber demo_returned
   \<and> the_current_room demo_returned
       = Inr (demo_player\<lparr>current_room := Some ''start''\<rparr>, ''start'', demo_hall\<lparr>visited := True\<rparr>)
   \<and> map_of (exits (demo_hall\<lparr>visited := True\<rparr>)) ''n'' = Some ''start_n''
   \<and> cmd_move failing_client ''n'' demo_returned =
       cmd_look (demo_returned\<lparr>player :=
         Some (demo_player\<lparr>current_room := Some ''start'', current_room := Some ''start_n''\<rparr>)\<rparr>)
   \<and> text_of (cmd_move failing_client ''n'' demo_returned) \<noteq> None"
proof -
  note fact = fallback_never_goal [OF demo_current demo_n_fails(1-3)]
  have st: "state_of (cmd_move failing_client ''n'' demo_game) = Some demo_chamber"
    using transition_fallback [OF demo_current demo_n_fails(1-3)]
    by (simp add: cmd_move_def state_of_def demo_chamber_def demo_game_def)
  have lt: "later demo_chamber demo_returned"
    using later_move [OF later_now demo_chamber_back] .
  have cur2: "the_current_room demo_returned
       = Inr (demo_player\<lparr>current_room := Some ''start''\<rparr>, ''start'', demo_hall\<lparr>visited := True\<rparr>)"
    by (simp add: demo_returned_def the_current_room_def)
  have ex2: "map_of (exits (demo_hall\<lparr>visited := True\<rparr>)) ''n'' = Some ''start_n''"
    by (simp add: demo_hall_def)
  from fact have a: "text_of (cmd_move failing_client ''n'' demo_game) =
       Some (py_join ''\<newline>'' (look_parts (create_fallback_room ''start_n'')
                                    @ hint_parts (create_fallback_room ''start_n'')))"
    by blast
  from fact st lt cur2 ex2
  have b: "cmd_move failing_client ''n'' demo_returned =
       cmd_look (demo_returned\<lparr>player :=
         Some (demo_player\<lparr>current_room := Some ''start'', current_room := Some ''start_n''\<rparr>)\<rparr>)
     \<and> text_of (cmd_move failing_client ''n'' demo_returned) \<noteq> None"
    by blast
  from a b st lt cur2 ex2 demo_current demo_n_fails(1-3) show ?thesis by blast
qed

section \<open>Failures of the narrative service\<close>

text \<open>
  C9. A failed call of the narrative service never raises out of the function that made
  it, and is answered by a fixed value after that one call. \<open>generate_story_theme\<close>
  sets the theme "A mysterious adventure" and the goal "Discover the truth and find your
  way home"; \<open>get_contextual_hint\<close>, and so the command \<open>hint\<close>, returns "You might
  want to examine your surroundings more carefully..."; \<open>generate_room\<close> returns the
  fallback room. In each case the count of calls goes up by exactly one and nothing else
  of the game changes.
\<close>

theorem generation_failures_degrade:
  "(theme_reply cl (api_calls g) = None \<longrightarrow>
      generate_story_theme cl g =
        g\<lparr>api_calls := Suc (api_calls g),
          story_theme := ''A mysterious adventure'',
          goal_description := ''Discover the truth and find your way home''\<rparr>)
   \<and> (the_current_room g = Inr (p, rid, r)
        \<and> hint_reply cl (api_calls g) (hint_prompt p r) = None \<longrightarrow>
      get_contextual_hint cl g =
        Inr (''You might want to examine your surroundings more carefully...'',
             g\<lparr>api_calls := Suc (api_calls g)\<rparr>)
      \<and> (\<forall>command others. split_ws (lower_str command) = ''hint'' # others \<longrightarrow>
            process_command cl command g =
              Inr (''You might want to examine your surroundings more carefully...'',
                   g\<lparr>api_calls := Suc (api_calls g)\<rparr>)))
   \<and> (room_reply cl (api_calls g) (room_prompt g prev) = None \<longrightarrow>
      generate_room cl X prev g =
        (create_fallback_room X, g\<lparr>api_calls := Suc (api_calls g)\<rparr>))"
proof -
  have theme_fails: "generate_story_theme cl g =
        g\<lparr>api_calls := Suc (api_calls g),
          story_theme := ''A mysterious adventure'',
          goal_description := ''Discover the truth and find your way home''\<rparr>"
    if "theme_reply cl (api_calls g) = None"
    using that by (simp add: generate_story_theme_def Let_def)
  have hint_fails: "get_contextual_hint cl g =
        Inr (''You might want to examine your surroundings more carefully...'',
             g\<lparr>api_calls := Suc (api_calls g)\<rparr>)"
    if "the_current_room g = Inr (p, rid, r)"
      and "hint_reply cl (api_calls g) (hint_prompt p r) = None"
    using that by (simp add: get_contextual_hint_def Let_def)
  have hint_command: "process_command cl command g = get_contextual_hint cl g"
    if "split_ws (lower_str command) = ''hint'' # others" for command others
    using that by (simp add: process_command_def)
  from theme_fails hint_fails hint_command generate_room_failure [of cl g prev X]
  show ?thesis by simp
qed

theorem generation_failures_degrade_witness:
  "theme_reply failing_client (api_calls new_game) = None
   \<and> story_theme (generate_story_theme failing_client new_game) = ''A mysterious adventure''
   \<and> goal_description (generate_story_theme failing_client new_game)
       = ''Discover the truth and find your way home''
   \<and> api_calls (generate_story_theme failing_client new_game) = 1
   \<and> the_current_room demo_game = Inr (demo_player, ''start'', demo_hall)
   \<and> hint_reply failing_client (api_calls demo_game) (hint_prompt demo_player demo_hall) = None
   \<and> split_ws (lower_str ''Hint please'') = [''hint'', ''please'']
   \<and> process_command failing_client ''Hint please'' demo_game =
        Inr (''You might want to examine your surroundings more carefully...'',
             demo_game\<lparr>api_calls := 4\<rparr>)
   \<and> room_reply failing_client (api_calls demo_game) (room_prompt demo_game None) = None
   \<and> generate_room failing_client ''start_n'' None demo_game =
        (create_fallback_room ''start_n'', demo_game\<lparr>api_calls := 4\<rparr>)"
proof -
  have fails: "theme_reply failing_client (api_calls new_game) = None"
    "hint_reply failing_client (api_calls demo_game) (hint_prompt demo_player demo_hall) = None"
    "room_reply failing_client (api_calls demo_game) (room_prompt demo_game None) = None"
    by (simp_all add: failing_client_def)
  have toks: "split_ws (lower_str ''Hint please'') = [''hint'', ''please'']"
    by (simp add: text_defs)
  have calls: "Suc (api_calls demo_game) = 4" "api_calls new_game = 0"
    by (simp_all add: demo_game_def new_game_def)
  note theme_fact = generation_failures_degrade [of failing_client new_game]
  note fact = generation_failures_degrade
    [of failing_client demo_game demo_player "''start''" demo_hall None "''start_n''"]
  from theme_fact fails(1)
  have a: "generate_story_theme failing_client new_game =
        new_game\<lparr>api_calls := Suc (api_calls new_game),
          story_theme := ''A mysterious adventure'',
          goal_description := ''Discover the truth and find your way home''\<rparr>"
    by blast
  from fact demo_current fails(2) toks
  have b: "process_command failing_client ''Hint please'' demo_game =
        Inr (''You might want to examine your surroundings more carefully...'',
             demo_game\<lparr>api_calls := Suc (api_calls demo_game)\<rparr>)"
    by blast
  from fact fails(3)
  have c: "generate_room failing_client ''start_n'' None demo_game =
        (create_fallback_room ''start_n'', demo_game\<lparr>api_calls := Suc (api_calls demo_game)\<rparr>)"
    by blast
  from a b c fails toks demo_current show ?thesis
    by (simp add: calls)
qed

section \<open>Realizing rooms\<close>

text \<open>The state a transition through an existing exit leaves.\<close>

lemma transition_state:
  assumes "the_current_room g = Inr (p, rid, cur)" and "map_of (exits cur) d = Some t"
  shows "\<exists>r. rooms (entered cl p cur t g) t = Some r
     \<and> (case rooms g t of None \<Rightarrow> \<not> visited r | Some r0 \<Rightarrow> r = r0)
     \<and> state_of (handle_room_transition cl d g) =
         Some ((entered cl p cur t g)
                 \<lparr>rooms := (rooms (entered cl p cur t g))
                    (t \<mapsto> (if is_goal r then r else r\<lparr>visited := True\<rparr>))\<rparr>)"
proof -
  from transition_cases [OF assms, of cl] obtain r where
    r: "rooms (entered cl p cur t g) t = Some r"
    and v: "(case rooms g t of None \<Rightarrow> \<not> visited r | Some r0 \<Rightarrow> r = r0)"
    and res: "handle_room_transition cl d g =
         (if is_goal r
          then Inr (''\<newline>'' @ description r @ ''\<newline>\<newline>Congratulations! ''
                    @ goal_description g
                    @ ''\<newline>\<newline>You have completed your quest! Would you like to:''
                    @ ''\<newline>1. Continue exploring''
                    @ ''\<newline>2. Start a new adventure (type 'quit' and restart)\<newline>'',
                    entered cl p cur t g)
          else Inr (py_join ''\<newline>'' (look_parts r @ (if visited r then [] else hint_parts r)),
                    (entered cl p cur t g)
                      \<lparr>rooms := (rooms (entered cl p cur t g))(t \<mapsto> r\<lparr>visited := True\<rparr>)\<rparr>))"
    by blast
  have "(entered cl p cur t g)\<lparr>rooms := (rooms (entered cl p cur t g))(t \<mapsto> r)\<rparr>
      = entered cl p cur t g"
    using r by (simp add: map_upd_triv)
  with res have "state_of (handle_room_transition cl d g) =
         Some ((entered cl p cur t g)
                 \<lparr>rooms := (rooms (entered cl p cur t g))
                    (t \<mapsto> (if is_goal r then r else r\<lparr>visited := True\<rparr>))\<rparr>)"
    by (simp add: state_of_def)
  with r v show ?thesis by blast
qed

lemma transition_counts:
  assumes "the_current_room g = Inr (p, rid, cur)" and "map_of (exits cur) d = Some t"
    and "state_of (handle_room_transition cl d g) = Some g'"
  shows "dom (rooms g') = insert t (dom (rooms g))
     \<and> current_path_depth g' = current_path_depth g + (if rooms g t = None then 1 else 0)
     \<and> api_calls g' = api_calls g + (if rooms g t = None then 1 else 0)
     \<and> (\<exists>r'. rooms g' t = Some r' \<and> (is_goal r' \<or> visited r'))"
proof -
  from transition_state [OF assms(1,2), of cl] assms(3) obtain r where
    g': "g' = (entered cl p cur t g)
                 \<lparr>rooms := (rooms (entered cl p cur t g))
                    (t \<mapsto> (if is_goal r then r else r\<lparr>visited := True\<rparr>))\<rparr>"
    by auto
  show ?thesis
  proof (cases "rooms g t")
    case None
    with g' entered_absent [OF None, of cl p cur] show ?thesis by auto
  next
    case (Some r0)
    with g' entered_present [OF Some, of cl p cur] show ?thesis by auto
  qed
qed

text \<open>
  C3. A move into a room id that is already stored makes no generation call and leaves
  the path depth and the set of stored ids as they are; the stored room is the same
  record, at most marked visited by the rendering the move returns. When the id was
  entered by a move before (which, if the id was new then, raised the depth and the call
  count by one), the room is already a goal or visited, and the second move changes
  nothing of the game but the player's position.
\<close>

theorem realization_idempotent:
  assumes "the_current_room g = Inr (p, rid, cur)"
    and "map_of (exits cur) d = Some X"
    and "rooms g X = Some r"
  shows "state_of (cmd_move cl d g) =
           Some (g\<lparr>player := Some (p\<lparr>current_room := Some X\<rparr>),
                   rooms := (rooms g)(X \<mapsto> (if is_goal r then r else r\<lparr>visited := True\<rparr>))\<rparr>)
    \<and> (\<forall>g'. state_of (cmd_move cl d g) = Some g' \<longrightarrow>
          current_path_depth g' = current_path_depth g \<and> api_calls g' = api_calls g
          \<and> dom (rooms g') = dom (rooms g))
    \<and> (\<forall>cl0 g0 p0 rid0 cur0 d0 g1.
          the_current_room g0 = Inr (p0, rid0, cur0)
          \<and> map_of (exits cur0) d0 = Some X
          \<and> state_of (cmd_move cl0 d0 g0) = Some g1
          \<and> later g1 g
          \<longrightarrow> current_path_depth g1 = current_path_depth g0 + (if rooms g0 X = None then 1 else 0)
              \<and> api_calls g1 = api_calls g0 + (if rooms g0 X = None then 1 else 0)
              \<and> state_of (cmd_move cl d g) = Some (g\<lparr>player := Some (p\<lparr>current_room := Some X\<rparr>)\<rparr>))"
proof -
  let ?g' = "g\<lparr>player := Some (p\<lparr>current_room := Some X\<rparr>),
               rooms := (rooms g)(X \<mapsto> (if is_goal r then r else r\<lparr>visited := True\<rparr>))\<rparr>"
  have st: "state_of (cmd_move cl d g) = Some ?g'"
    using transition_state [OF assms(1,2), of cl] assms(3)
    by (auto simp: cmd_move_def entered_present)
  have same: "current_path_depth g' = current_path_depth g \<and> api_calls g' = api_calls g
          \<and> dom (rooms g') = dom (rooms g)"
    if "state_of (cmd_move cl d g) = Some g'" for g'
  proof -
    from that st have "g' = ?g'" by simp
    with assms(3) show ?thesis by auto
  qed
  have second: "current_path_depth g1 = current_path_depth g0 + (if rooms g0 X = None then 1 else 0)
              \<and> api_calls g1 = api_calls g0 + (if rooms g0 X = None then 1 else 0)
              \<and> state_of (cmd_move cl d g) = Some (g\<lparr>player := Some (p\<lparr>current_room := Some X\<rparr>)\<rparr>)"
    if cur0: "the_current_room g0 = Inr (p0, rid0, cur0)"
      and ex0: "map_of (exits cur0) d0 = Some X"
      and st0: "state_of (cmd_move cl0 d0 g0) = Some g1"
      and lt: "later g1 g"
    for cl0 g0 p0 rid0 cur0 d0 g1
  proof -
    from transition_counts [OF cur0 ex0 st0 [unfolded cmd_move_def]] obtain r1 where
      counts: "current_path_depth g1 = current_path_depth g0 + (if rooms g0 X = None then 1 else 0)"
        "api_calls g1 = api_calls g0 + (if rooms g0 X = None then 1 else 0)"
      and r1: "rooms g1 X = Some r1" "is_goal r1 \<or> visited r1"
      by blast
    from later_keeps [OF lt r1(1)] assms(3) have k: "kept r1 r" by simp
    from kept_fields [OF k] kept_visited [OF k] r1(2) have "is_goal r \<or> visited r" by auto
    then have "(if is_goal r then r else r\<lparr>visited := True\<rparr>) = r"
      by (auto simp: visited_again)
    then have "?g' = g\<lparr>player := Some (p\<lparr>current_room := Some X\<rparr>)\<rparr>"
      using assms(3) by (simp add: map_upd_triv)
    with st counts show ?thesis by simp
  qed
  from st same second show ?thesis by blast
qed

theorem realization_idempotent_witness:
  "the_current_room demo_returned
       = Inr (demo_player\<lparr>current_room := Some ''start''\<rparr>, ''start'', demo_hall\<lparr>visited := True\<rparr>)
   \<and> map_of (exits (demo_hall\<lparr>visited := True\<rparr>)) ''n'' = Some ''start_n''
   \<and> rooms demo_returned ''start_n'' = Some ((create_fallback_room ''start_n'')\<lparr>visited := True\<rparr>)
   \<and> the_current_room demo_game = Inr (demo_player, ''start'', demo_hall)
   \<and> map_of (exits demo_hall) ''n'' = Some ''start_n''
   \<and> rooms demo_game ''start_n'' = None
   \<and> state_of (cmd_move failing_client ''n'' demo_game) = Some demo_chamber
   \<and> later demo_chamber demo_returned
   \<and> current_path_depth demo_chamber = current_path_depth demo_game + 1
   \<and> api_calls demo_chamber = api_calls demo_game + 1
   \<and> state_of (cmd_move failing_client ''n'' demo_returned) =
       Some (demo_returned\<lparr>player := Some (demo_player\<lparr>current_room := Some ''start_n''\<rparr>)\<rparr>)"
proof -
  have cur: "the_current_room demo_returned
       = Inr (demo_player\<lparr>current_room := Some ''start''\<rparr>, ''start'', demo_hall\<lparr>visited := True\<rparr>)"
    by (simp add: demo_returned_def the_current_room_def)
  have ex: "map_of (exits (demo_hall\<lparr>visited := True\<rparr>)) ''n'' = Some ''start_n''"
    by (simp add: demo_hall_def)
  have stored: "rooms demo_returned ''start_n''
      = Some ((create_fallback_room ''start_n'')\<lparr>visited := True\<rparr>)"
    by (simp add: demo_returned_def demo_chamber_def)
  have st0: "state_of (cmd_move failing_client ''n'' demo_game) = Some demo_chamber"
    using transition_fallback [OF demo_current demo_n_fails(1-3)]
    by (simp add: cmd_move_def state_of_def demo_chamber_def demo_game_def)
  have lt: "later demo_chamber demo_returned"
    using later_move [OF later_now demo_chamber_back] .
  note fact = realization_idempotent [OF cur ex stored, of failing_client]
  from fact demo_current demo_n_fails(1) st0 lt
  have "current_path_depth demo_chamber
          = current_path_depth demo_game + (if rooms demo_game ''start_n'' = None then 1 else 0)
      \<and> api_calls demo_chamber
          = api_calls demo_game + (if rooms demo_game ''start_n'' = None then 1 else 0)
      \<and> state_of (cmd_move failing_client ''n'' demo_returned) =
          Some (demo_returned\<lparr>player :=
            Some (demo_player\<lparr>current_room := Some ''start'', current_room := Some ''start_n''\<rparr>)\<rparr>)"
    by blast
  with cur ex stored demo_current demo_n_fails(1,2) st0 lt show ?thesis
    by simp
qed

section \<open>Path depth\<close>

lemma no_new_room_refl: "no_new_room g g"
  by (simp add: no_new_room_def)

lemma cmd_look_no_new_room:
  assumes "cmd_look g = Inr (msg, g')"
  shows "no_new_room g g'"
proof -
  from assms obtain p rid r where cur: "the_current_room g = Inr (p, rid, r)"
    by (auto simp: cmd_look_def split: sum.splits)
  then have "insert rid (dom (rooms g)) = dom (rooms g)"
    by (auto simp: the_current_room_cases)
  with assms cmd_look_marks [OF cur] show ?thesis
    by (auto simp: no_new_room_def)
qed

lemma cmd_take_no_new_room:
  assumes "cmd_take noun g = Inr (msg, g')"
  shows "no_new_room g g'"
proof -
  from assms obtain p rid r where cur: "the_current_room g = Inr (p, rid, r)"
    by (auto simp: cmd_take_def split: sum.splits)
  then have "insert rid (dom (rooms g)) = dom (rooms g)"
    by (auto simp: the_current_room_cases)
  with assms cmd_take_find [OF cur, of noun] show ?thesis
    by (auto simp: no_new_room_def split: option.splits if_splits)
qed

lemma hint_no_new_room:
  "get_contextual_hint cl g = Inr (msg, g') \<Longrightarrow> no_new_room g g'"
  by (auto simp: get_contextual_hint_def Let_def no_new_room_def split: sum.splits option.splits)

lemma transition_new_room:
  assumes "handle_room_transition cl d g = Inr (msg, g')"
  shows "no_new_room g g' \<or> one_new_room g g'"
proof -
  from assms obtain p rid cur where cur: "the_current_room g = Inr (p, rid, cur)"
    by (auto simp: handle_room_transition_def split: sum.splits)
  show ?thesis
  proof (cases "map_of (exits cur) d")
    case None
    with transition_refused [OF cur None, of cl] assms show ?thesis
      by (simp add: no_new_room_refl)
  next
    case (Some t)
    from assms have "state_of (handle_room_transition cl d g) = Some g'"
      by (simp add: state_of_def)
    from transition_counts [OF cur Some this]
    have dom: "dom (rooms g') = insert t (dom (rooms g))"
      and depth: "current_path_depth g' = current_path_depth g + (if rooms g t = None then 1 else 0)"
      by simp_all
    show ?thesis
    proof (cases "rooms g t")
      case None
      with dom depth have "one_new_room g g'"
        unfolding one_new_room_def by (intro exI [of _ t]) auto
      then show ?thesis ..
    next
      case (Some r)
      with dom depth have "no_new_room g g'"
        by (auto simp: no_new_room_def)
      then show ?thesis ..
    qed
  qed
qed

lemma process_command_new_room:
  assumes "process_command cl command g = Inr (msg, g')"
  shows "no_new_room g g' \<or> one_new_room g g'"
  using assms unfolding process_command_def Let_def cmd_move_def with_state_def
  using no_new_room_refl [of g] cmd_look_no_new_room [of g msg g']
    cmd_take_no_new_room [of _ g msg g'] hint_no_new_room [of cl g msg g']
    transition_new_room [of cl _ g msg g']
  by (auto split: list.splits if_splits sum.splits)

lemma new_room_card:
  assumes "no_new_room g g' \<or> one_new_room g g'" and "finite (dom (rooms g))"
  shows "finite (dom (rooms g'))
     \<and> current_path_depth g' - int (card (dom (rooms g')))
         = current_path_depth g - int (card (dom (rooms g)))"
  using assms by (auto simp: no_new_room_def one_new_room_def card_insert_if domIff)

lemma later_card:
  "later g g' \<Longrightarrow> finite (dom (rooms g)) \<Longrightarrow>
   finite (dom (rooms g'))
     \<and> current_path_depth g' - int (card (dom (rooms g')))
         = current_path_depth g - int (card (dom (rooms g)))"
proof (induction rule: later.induct)
  case (later_now g)
  then show ?case by simp
next
  case (later_command g g1 cl command msg g2)
  from later_command.IH [OF later_command.prems]
    new_room_card [OF process_command_new_room [OF later_command.hyps(2)]]
  show ?case by simp
next
  case (later_move g g1 cl direction msg g2)
  from later_move.IH [OF later_move.prems]
    new_room_card [OF transition_new_room [OF later_move.hyps(2) [unfolded cmd_move_def]]]
  show ?case by simp
qed

lemma initialize_game_counts:
  "current_path_depth (initialize_game cl g) = current_path_depth g
   \<and> dom (rooms (initialize_game cl g)) = insert ''start'' (dom (rooms g))
   \<and> api_calls (initialize_game cl g) = api_calls g + 2"
  by (simp add: initialize_game_def generate_story_theme_def generate_room_def Let_def
      split: option.splits prod.splits)


text \<open>
  C2, as the code has it. A command or a move that returns either stores no new room and
  leaves \<open>current_path_depth\<close> as it is, or stores exactly one new room and raises it
  by exactly 1; a move through an exit raises it exactly when the exit's target was not
  stored (realized by generation or by fallback alike), and stores the target and nothing
  else. Nothing but such a move changes the depth or the stored ids: not a refused move,
  which returns the game as it was, not \<open>cmd_look\<close>, \<open>cmd_take\<close> or
  \<open>get_contextual_hint\<close>, and no command other than a movement command, which is the
  move under its verb. \<open>initialize_game\<close> stores \<open>start\<close> and leaves the depth
  unchanged, 0 in a new game, so that all through a session the depth is the number of
  stored rooms less one.
\<close>

theorem path_depth_counts_new_rooms:
  "(\<forall>msg g'. process_command cl command g = Inr (msg, g') \<longrightarrow>
       no_new_room g g' \<or> one_new_room g g')
   \<and> (\<forall>msg g'. cmd_move cl d g = Inr (msg, g') \<longrightarrow>
       no_new_room g g' \<or> one_new_room g g')
   \<and> (\<forall>p rid cur X g'.
         the_current_room g = Inr (p, rid, cur) \<and> map_of (exits cur) d = Some X
         \<and> state_of (cmd_move cl d g) = Some g' \<longrightarrow>
         current_path_depth g'
           = current_path_depth g + (if rooms g X = None then 1 else 0))
   \<and> current_path_depth (initialize_game cl g) = current_path_depth g
   \<and> dom (rooms (initialize_game cl g)) = insert ''start'' (dom (rooms g))
   \<and> (\<forall>g'. later (initialize_game cl new_game) g' \<longrightarrow>
         current_path_depth g' = int (card (dom (rooms g'))) - 1)
   \<and> (\<forall>msg g'. process_command cl command g = Inr (msg, g') \<and> \<not> is_move_command command
         \<longrightarrow> no_new_room g g')
   \<and> (\<forall>verb others.
         split_ws (lower_str command) = verb # others
         \<and> verb \<in> set [''n'', ''s'', ''e'', ''w'', ''north'', ''south'', ''east'', ''west'']
         \<longrightarrow> is_move_command command \<and> process_command cl command g = cmd_move cl verb g)
   \<and> (\<forall>msg g'. cmd_look g = Inr (msg, g') \<longrightarrow> no_new_room g g')
   \<and> (\<forall>noun msg g'. cmd_take noun g = Inr (msg, g') \<longrightarrow> no_new_room g g')
   \<and> (\<forall>msg g'. get_contextual_hint cl g = Inr (msg, g') \<longrightarrow> no_new_room g g')
   \<and> (\<forall>p rid cur.
         the_current_room g = Inr (p, rid, cur) \<and> map_of (exits cur) d = None \<longrightarrow>
         cmd_move cl d g = Inr (''You can't go that way.'', g))
   \<and> (\<forall>p rid cur X g'.
         the_current_room g = Inr (p, rid, cur) \<and> map_of (exits cur) d = Some X
         \<and> state_of (cmd_move cl d g) = Some g' \<longrightarrow>
         dom (rooms g') = insert X (dom (rooms g)))"
proof -
  have commands: "\<forall>msg g'. process_command cl command g = Inr (msg, g') \<longrightarrow>
       no_new_room g g' \<or> one_new_room g g'"
    using process_command_new_room by blast
  have moves: "\<forall>msg g'. cmd_move cl d g = Inr (msg, g') \<longrightarrow>
       no_new_room g g' \<or> one_new_room g g'"
    unfolding cmd_move_def using transition_new_room by blast
  have exact: "\<forall>p rid cur X g'.
         the_current_room g = Inr (p, rid, cur) \<and> map_of (exits cur) d = Some X
         \<and> state_of (cmd_move cl d g) = Some g' \<longrightarrow>
         current_path_depth g'
           = current_path_depth g + (if rooms g X = None then 1 else 0)"
  proof (intro allI impI, elim conjE)
    fix p rid cur X g'
    assume "the_current_room g = Inr (p, rid, cur)" "map_of (exits cur) d = Some X"
      "state_of (cmd_move cl d g) = Some g'"
    from transition_counts [OF this(1,2) this(3) [unfolded cmd_move_def]]
    show "current_path_depth g'
           = current_path_depth g + (if rooms g X = None then 1 else 0)"
      by simp
  qed
  have stored: "\<forall>p rid cur X g'.
         the_current_room g = Inr (p, rid, cur) \<and> map_of (exits cur) d = Some X
         \<and> state_of (cmd_move cl d g) = Some g' \<longrightarrow>
         dom (rooms g') = insert X (dom (rooms g))"
  proof (intro allI impI, elim conjE)
    fix p rid cur X g'
    assume "the_current_room g = Inr (p, rid, cur)" "map_of (exits cur) d = Some X"
      "state_of (cmd_move cl d g) = Some g'"
    from transition_counts [OF this(1,2) this(3) [unfolded cmd_move_def]]
    show "dom (rooms g') = insert X (dom (rooms g))"
      by simp
  qed
  have session: "\<forall>g'. later (initialize_game cl new_game) g' \<longrightarrow>
         current_path_depth g' = int (card (dom (rooms g'))) - 1"
  proof (intro allI impI)
    fix g'
    assume lt: "later (initialize_game cl new_game) g'"
    have start: "dom (rooms (initialize_game cl new_game)) = {''start''}"
      "current_path_depth (initialize_game cl new_game) = 0"
      using initialize_game_counts [of cl new_game] by (simp_all add: new_game_def)
    then have "finite (dom (rooms (initialize_game cl new_game)))" by simp
    from later_card [OF lt this] start
    show "current_path_depth g' = int (card (dom (rooms g'))) - 1" by simp
  qed
  have init: "current_path_depth (initialize_game cl g) = current_path_depth g"
    "dom (rooms (initialize_game cl g)) = insert ''start'' (dom (rooms g))"
    using initialize_game_counts [of cl g] by simp_all
  have others: "\<forall>msg g'. process_command cl command g = Inr (msg, g')
         \<and> \<not> is_move_command command \<longrightarrow> no_new_room g g'"
  proof (intro allI impI, elim conjE)
    fix msg g'
    assume res: "process_command cl command g = Inr (msg, g')"
      and other: "\<not> is_move_command command"
    from res other show "no_new_room g g'"
      unfolding process_command_def is_move_command_def Let_def with_state_def
      using no_new_room_refl [of g] cmd_look_no_new_room [of g msg g']
        cmd_take_no_new_room [of _ g msg g'] hint_no_new_room [of cl g msg g']
      by (auto split: list.splits if_splits sum.splits)
  qed
  have delegate: "\<forall>verb others.
         split_ws (lower_str command) = verb # others
         \<and> verb \<in> set [''n'', ''s'', ''e'', ''w'', ''north'', ''south'', ''east'', ''west'']
         \<longrightarrow> is_move_command command \<and> process_command cl command g = cmd_move cl verb g"
    by (auto simp: process_command_def is_move_command_def)
  have look: "\<forall>msg g'. cmd_look g = Inr (msg, g') \<longrightarrow> no_new_room g g'"
    using cmd_look_no_new_room by blast
  have take: "\<forall>noun msg g'. cmd_take noun g = Inr (msg, g') \<longrightarrow> no_new_room g g'"
    using cmd_take_no_new_room by blast
  have hint: "\<forall>msg g'. get_contextual_hint cl g = Inr (msg, g') \<longrightarrow> no_new_room g g'"
    using hint_no_new_room by blast
  have refused: "\<forall>p rid cur.
         the_current_room g = Inr (p, rid, cur) \<and> map_of (exits cur) d = None \<longrightarrow>
         cmd_move cl d g = Inr (''You can't go that way.'', g)"
    unfolding cmd_move_def using transition_refused by blast
  from commands moves exact init session others delegate look take hint refused stored
  show ?thesis
    by (intro conjI)
qed

theorem path_depth_counts_new_rooms_witness:
  "the_current_room demo_game = Inr (demo_player, ''start'', demo_hall)
   \<and> map_of (exits demo_hall) ''n'' = Some ''start_n''
   \<and> rooms demo_game ''start_n'' = None
   \<and> state_of (cmd_move failing_client ''n'' demo_game) = Some demo_chamber
   \<and> current_path_depth demo_chamber = current_path_depth demo_game + 1
   \<and> dom (rooms demo_chamber) = insert ''start_n'' (dom (rooms demo_game))
   \<and> later (initialize_game failing_client new_game) (initialize_game failing_client new_game)
   \<and> current_path_depth (initialize_game failing_client new_game) = 0
   \<and> dom (rooms (initialize_game failing_client new_game)) = {''start''}
   \<and> \<not> is_move_command ''hint''
   \<and> process_command failing_client ''hint'' demo_game =
        Inr (''You might want to examine your surroundings more carefully...'',
             demo_game\<lparr>api_calls := Suc (api_calls demo_game)\<rparr>)
   \<and> no_new_room demo_game (demo_game\<lparr>api_calls := Suc (api_calls demo_game)\<rparr>)
   \<and> split_ws (lower_str ''N'') = [''n'']
   \<and> process_command failing_client ''N'' demo_game = cmd_move failing_client ''n'' demo_game
   \<and> map_of (exits demo_hall) ''north'' = None
   \<and> cmd_move failing_client ''north'' demo_game = Inr (''You can't go that way.'', demo_game)"
proof -
  note fact = path_depth_counts_new_rooms [of failing_client "''hint''" demo_game "''n''"]
  note typed = path_depth_counts_new_rooms [of failing_client "''N''" demo_game "''north''"]
  note init = path_depth_counts_new_rooms [of failing_client "''hint''" new_game "''n''"]
  have st0: "state_of (cmd_move failing_client ''n'' demo_game) = Some demo_chamber"
    using transition_fallback [OF demo_current demo_n_fails(1-3)]
    by (simp add: cmd_move_def state_of_def demo_chamber_def demo_game_def)
  from fact have exact: "\<forall>p rid cur X g'.
         the_current_room demo_game = Inr (p, rid, cur) \<and> map_of (exits cur) ''n'' = Some X
         \<and> state_of (cmd_move failing_client ''n'' demo_game) = Some g' \<longrightarrow>
         current_path_depth g'
           = current_path_depth demo_game + (if rooms demo_game X = None then 1 else 0)"
    by (elim conjE)
  from fact have stored: "\<forall>p rid cur X g'.
         the_current_room demo_game = Inr (p, rid, cur) \<and> map_of (exits cur) ''n'' = Some X
         \<and> state_of (cmd_move failing_client ''n'' demo_game) = Some g' \<longrightarrow>
         dom (rooms g') = insert X (dom (rooms demo_game))"
    by (elim conjE)
  from fact have others: "\<forall>msg g'. process_command failing_client ''hint'' demo_game = Inr (msg, g')
         \<and> \<not> is_move_command ''hint'' \<longrightarrow> no_new_room demo_game g'"
    by (elim conjE)
  from typed have delegate: "\<forall>verb others.
         split_ws (lower_str ''N'') = verb # others
         \<and> verb \<in> set [''n'', ''s'', ''e'', ''w'', ''north'', ''south'', ''east'', ''west'']
         \<longrightarrow> is_move_command ''N''
             \<and> process_command failing_client ''N'' demo_game = cmd_move failing_client verb demo_game"
    by (elim conjE)
  from typed have refused: "\<forall>p rid cur.
         the_current_room demo_game = Inr (p, rid, cur) \<and> map_of (exits cur) ''north'' = None
         \<longrightarrow> cmd_move failing_client ''north'' demo_game
             = Inr (''You can't go that way.'', demo_game)"
    by (elim conjE)
  from init have start: "dom (rooms (initialize_game failing_client new_game))
      = insert ''start'' (dom (rooms new_game))"
    by (elim conjE)
  from init have session: "\<forall>g'. later (initialize_game failing_client new_game) g' \<longrightarrow>
         current_path_depth g' = int (card (dom (rooms g'))) - 1"
    by (elim conjE)
  have a: "current_path_depth demo_chamber = current_path_depth demo_game + 1"
    using exact [rule_format, OF conjI [OF demo_current conjI [OF demo_n_fails(1) st0]]]
      demo_n_fails(2)
    by simp
  have a': "dom (rooms demo_chamber) = insert ''start_n'' (dom (rooms demo_game))"
    using stored [rule_format, OF conjI [OF demo_current conjI [OF demo_n_fails(1) st0]]] .
  have b: "dom (rooms (initialize_game failing_client new_game)) = {''start''}"
    using start by (simp add: new_game_def)
  have c: "current_path_depth (initialize_game failing_client new_game) = 0"
    using session [rule_format, OF later_now] b by simp
  have nomove: "\<not> is_move_command ''hint''"
    by (simp add: is_move_command_def text_defs)
  have hint: "process_command failing_client ''hint'' demo_game =
        Inr (''You might want to examine your surroundings more carefully...'',
             demo_game\<lparr>api_calls := Suc (api_calls demo_game)\<rparr>)"
  proof -
    have "split_ws (lower_str ''hint'') = [''hint'']"
      by (simp add: text_defs)
    moreover have "hint_reply failing_client (api_calls demo_game)
        (hint_prompt demo_player demo_hall) = None"
      by (simp add: failing_client_def)
    ultimately show ?thesis
      using demo_current by (simp add: process_command_def get_contextual_hint_def Let_def)
  qed
  have d: "no_new_room demo_game (demo_game\<lparr>api_calls := Suc (api_calls demo_game)\<rparr>)"
    using others [rule_format, OF conjI [OF hint nomove]] .
  have toks: "split_ws (lower_str ''N'') = [''n'']"
    by (simp add: text_defs)
  have verb: "''n'' \<in> set [''n'', ''s'', ''e'', ''w'', ''north'', ''south'', ''east'', ''west'']"
    by simp
  have e: "process_command failing_client ''N'' demo_game = cmd_move failing_client ''n'' demo_game"
    using delegate [rule_format, OF conjI [OF toks verb]] by (rule conjunct2)
  have nokey: "map_of (exits demo_hall) ''north'' = None"
    by (simp add: demo_hall_def)
  have f: "cmd_move failing_client ''north'' demo_game
      = Inr (''You can't go that way.'', demo_game)"
    using refused [rule_format, OF conjI [OF demo_current nokey]] .
  from demo_current demo_n_fails(1,2) st0 a a'
    later_now [of "initialize_game failing_client new_game"] c b nomove hint d toks e nokey f
  show ?thesis by (intro conjI)
qed

text \<open>
  C2, as stated, fails at initialization: in a new game \<open>start\<close> is not stored and
  the depth is 0; after \<open>initialize_game\<close> the room \<open>start\<close> is stored and the depth
  is still 0.
\<close>

theorem start_realized_at_depth_zero_counterexample:
  "rooms new_game ''start'' = None
   \<and> rooms (initialize_game failing_client new_game) ''start''
       = Some (create_fallback_room ''start'')
   \<and> current_path_depth new_game = 0
   \<and> current_path_depth (initialize_game failing_client new_game) = 0"
  by (simp add: initialize_game_def generate_story_theme_def generate_room_def new_game_def
      failing_client_def Let_def)

section \<open>Movement verbs\<close>

text \<open>
  C1, as the code has it. When the first token of the lower-cased command is one of
  \<open>n, s, e, w, north, south, east, west\<close>, \<open>process_command\<close> hands that token, as
  typed, to \<open>cmd_move\<close> and so to \<open>handle_room_transition\<close>. The current room's exits
  are looked up under the token itself: the move is refused when the token is no key,
  and otherwise puts the player in the target stored under it.
\<close>

theorem movement_verb_passed_as_typed:
  assumes "split_ws (lower_str command) = verb # others"
    and "verb \<in> set [''n'', ''s'', ''e'', ''w'', ''north'', ''south'', ''east'', ''west'']"
  shows "process_command cl command g = cmd_move cl verb g
    \<and> cmd_move cl verb g = handle_room_transition cl verb g
    \<and> (\<forall>p rid cur. the_current_room g = Inr (p, rid, cur) \<longrightarrow>
          (case map_of (exits cur) verb of
             None \<Rightarrow> process_command cl command g = Inr (''You can't go that way.'', g)
           | Some t \<Rightarrow>
               map_option location_of (state_of (process_command cl command g)) = Some (Some t)
               \<and> text_of (process_command cl command g) \<noteq> Some ''You can't go that way.''))"
proof -
  have delegate: "process_command cl command g = cmd_move cl verb g"
    using assms by (auto simp: process_command_def)
  have lookup: "(case map_of (exits cur) verb of
             None \<Rightarrow> process_command cl command g = Inr (''You can't go that way.'', g)
           | Some t \<Rightarrow>
               map_option location_of (state_of (process_command cl command g)) = Some (Some t)
               \<and> text_of (process_command cl command g) \<noteq> Some ''You can't go that way.'')"
    if cur: "the_current_room g = Inr (p, rid, cur)" for p rid cur
  proof (cases "map_of (exits cur) verb")
    case None
    with transition_refused [OF cur None, of cl] delegate show ?thesis
      by (simp add: cmd_move_def)
  next
    case (Some t)
    from transition_arrives [OF cur Some, of cl] obtain msg g' r' where
      "handle_room_transition cl verb g = Inr (msg, g')"
      "the_current_room g' = Inr (p\<lparr>current_room := Some t\<rparr>, t, r')"
      "msg \<noteq> ''You can't go that way.''"
      by blast
    with Some delegate show ?thesis
      by (simp add: cmd_move_def state_of_def text_of_def location_of_def the_current_room_cases)
  qed
  from delegate lookup show ?thesis
    by (simp add: cmd_move_def)
qed

theorem movement_verb_passed_as_typed_witness:
  "split_ws (lower_str ''N'') = [''n'']
   \<and> ''n'' \<in> set [''n'', ''s'', ''e'', ''w'', ''north'', ''south'', ''east'', ''west'']
   \<and> the_current_room demo_game = Inr (demo_player, ''start'', demo_hall)
   \<and> map_of (exits demo_hall) ''n'' = Some ''start_n''
   \<and> process_command failing_client ''N'' demo_game = cmd_move failing_client ''n'' demo_game
   \<and> map_option location_of (state_of (process_command failing_client ''N'' demo_game))
       = Some (Some ''start_n'')"
proof -
  have toks: "split_ws (lower_str ''N'') = [''n'']"
    by (simp add: text_defs)
  have verb: "''n'' \<in> set [''n'', ''s'', ''e'', ''w'', ''north'', ''south'', ''east'', ''west'']"
    by simp
  note fact = movement_verb_passed_as_typed [OF toks verb, of failing_client demo_game]
  note lookup = fact [THEN conjunct2, THEN conjunct2, rule_format, OF demo_current]
  from fact have a: "process_command failing_client ''N'' demo_game
      = cmd_move failing_client ''n'' demo_game"
    by (rule conjunct1)
  from lookup demo_n_fails(1)
  have b: "map_option location_of (state_of (process_command failing_client ''N'' demo_game))
       = Some (Some ''start_n'')"
    by simp
  from toks verb demo_current demo_n_fails(1) a b show ?thesis
    by (intro conjI)
qed

text \<open>
  C1, as stated, fails: a long form and its short form are different keys. In a room
  whose exits are \<open>n\<close> and \<open>east\<close>, the command \<open>north\<close> is refused where \<open>n\<close>
  moves the player, and \<open>e\<close> is refused where \<open>east\<close> moves the player.
\<close>

theorem long_and_short_verbs_differ_counterexample:
  "text_of (process_command failing_client ''north'' demo_game) = Some ''You can't go that way.''
   \<and> map_option location_of (state_of (process_command failing_client ''north'' demo_game))
       = Some (Some ''start'')
   \<and> map_option location_of (state_of (process_command failing_client ''n'' demo_game))
       = Some (Some ''start_n'')
   \<and> text_of (process_command failing_client ''e'' demo_game) = Some ''You can't go that way.''
   \<and> map_option location_of (state_of (process_command failing_client ''east'' demo_game))
       = Some (Some ''start_east'')"
proof -
  have toks: "split_ws (lower_str ''north'') = [''north'']" "split_ws (lower_str ''n'') = [''n'']"
    "split_ws (lower_str ''e'') = [''e'']" "split_ws (lower_str ''east'') = [''east'']"
    by (simp_all add: text_defs)
  have keys: "map_of (exits demo_hall) ''north'' = None" "map_of (exits demo_hall) ''e'' = None"
    "map_of (exits demo_hall) ''east'' = Some ''start_east''"
    by (simp_all add: demo_hall_def)
  have here: "location_of demo_game = Some ''start''"
    by (simp add: location_of_def demo_game_def demo_player_def)
  have north: "process_command failing_client ''north'' demo_game
      = Inr (''You can't go that way.'', demo_game)"
    using toks(1) transition_refused [OF demo_current keys(1), of failing_client]
    by (simp add: process_command_def cmd_move_def)
  have e: "process_command failing_client ''e'' demo_game
      = Inr (''You can't go that way.'', demo_game)"
    using toks(3) transition_refused [OF demo_current keys(2), of failing_client]
    by (simp add: process_command_def cmd_move_def)
  have n: "map_option location_of (state_of (process_command failing_client ''n'' demo_game))
       = Some (Some ''start_n'')"
    using toks(2) transition_fallback [OF demo_current demo_n_fails(1-3)]
    by (simp add: process_command_def cmd_move_def state_of_def location_of_def)
  have east: "map_option location_of (state_of (process_command failing_client ''east'' demo_game))
       = Some (Some ''start_east'')"
  proof -
    from transition_arrives [OF demo_current keys(3), of failing_client] obtain msg g' r' where
      "handle_room_transition failing_client ''east'' demo_game = Inr (msg, g')"
      "the_current_room g' = Inr (demo_player\<lparr>current_room := Some ''start_east''\<rparr>, ''start_east'', r')"
      by blast
    with toks(4) show ?thesis
      by (simp add: process_command_def cmd_move_def state_of_def location_of_def
          the_current_room_cases)
  qed
  from north e n east here show ?thesis
    by (simp add: text_of_def state_of_def)
qed

section \<open>The current room of a session\<close>

text \<open>
  The theorems above take a game whose player stands in a stored room. Every game of a
  session is one: \<open>initialize_game\<close> puts the player in \<open>start\<close>, and commands and
  moves keep the player in a stored room.
\<close>

lemma command_keeps_current_room:
  assumes "process_command cl command g = Inr (msg, g')"
    and "the_current_room g = Inr (p, rid, r)"
  shows "\<exists>p' rid' r'. the_current_room g' = Inr (p', rid', r')"
proof -
  have same: "\<exists>p' rid' r'. the_current_room g = Inr (p', rid', r')"
    using assms(2) by blast
  have look: "\<exists>p' rid' r'. the_current_room g' = Inr (p', rid', r')"
    if "cmd_look g = Inr (msg, g')"
    using that cmd_look_marks [OF assms(2)] assms(2)
    by (auto simp: the_current_room_cases)
  have take: "\<exists>p' rid' r'. the_current_room g' = Inr (p', rid', r')"
    if "cmd_take noun g = Inr (msg, g')" for noun
    using that cmd_take_find [OF assms(2), of noun] assms(2)
    by (auto simp: the_current_room_cases split: option.splits if_splits)
  have hint: "\<exists>p' rid' r'. the_current_room g' = Inr (p', rid', r')"
    if "get_contextual_hint cl g = Inr (msg, g')"
    using that assms(2)
    by (auto simp: get_contextual_hint_def Let_def the_current_room_cases split: option.splits)
  have move: "\<exists>p' rid' r'. the_current_room g' = Inr (p', rid', r')"
    if "handle_room_transition cl d g = Inr (msg, g')" for d
  proof (cases "map_of (exits r) d")
    case None
    with transition_refused [OF assms(2) None, of cl] that same show ?thesis by simp
  next
    case (Some t)
    from transition_arrives [OF assms(2) Some, of cl] that show ?thesis by auto
  qed
  from assms(1) show ?thesis
    unfolding process_command_def Let_def cmd_move_def with_state_def
    using same look take hint move
    by (auto split: list.splits if_splits sum.splits)
qed

lemma session_has_current_room:
  "later g g' \<Longrightarrow> the_current_room g = Inr (p, rid, r) \<Longrightarrow>
   \<exists>p' rid' r'. the_current_room g' = Inr (p', rid', r')"
proof (induction arbitrary: p rid r rule: later.induct)
  case (later_now g)
  then show ?case by blast
next
  case (later_command g g1 cl command msg g2)
  from later_command.IH [OF later_command.prems] obtain p1 rid1 r1 where
    "the_current_room g1 = Inr (p1, rid1, r1)" by blast
  from command_keeps_current_room [OF later_command.hyps(2) this] show ?case .
next
  case (later_move g g1 cl direction msg g2)
  from later_move.IH [OF later_move.prems] obtain p1 rid1 r1 where
    cur: "the_current_room g1 = Inr (p1, rid1, r1)" by blast
  show ?case
  proof (cases "map_of (exits r1) direction")
    case None
    with transition_refused [OF cur None, of cl] later_move.hyps(2) cur show ?thesis
      by (simp add: cmd_move_def)
  next
    case (Some t)
    from transition_arrives [OF cur Some, of cl] later_move.hyps(2) show ?thesis
      by (auto simp: cmd_move_def)
  qed
qed

lemma initialized_has_current_room:
  "\<exists>r. the_current_room (initialize_game cl g)
     = Inr ((new_player ''Adventurer'')\<lparr>current_room := Some ''start''\<rparr>, ''start'', r)"
  by (simp add: initialize_game_def the_current_room_def Let_def split: prod.splits)

end
